theory Spec2Isabelle
  imports Main "HOL-Library.AList" "HOL-Library.Sublist"
begin

section \<open>The filesystem the packaging script runs on\<close>

text \<open>
  \<^verbatim>\<open>Scripts/Package.py\<close> only creates directories, copies files and removes
  trees. Its state is the filesystem and the lines it prints. A path is the list of its
  components below the filesystem root (\<^verbatim>\<open>os.path.join(p, name)\<close> is
  \<open>p @ [name]\<close>), a filesystem is an association list from paths to entries, and
  the root directory \<open>[]\<close> always exists. A directory entry carries a flag
  telling whether new entries may be created in it (the permission the script's
  creation calls depend on); symbolic links, file modes and deletion permissions are
  not modelled.
\<close>

type_synonym path = "string list"

datatype entry = File string | Dir bool

type_synonym filesys = "(path \<times> entry) list"

datatype errno = ENOENT | EEXIST | ENOTDIR | EISDIR | EACCES

text \<open>
  The exceptions of the run: \<^verbatim>\<open>OSError\<close> with its errno,
  \<^verbatim>\<open>shutil.SameFileError\<close>, \<^verbatim>\<open>shutil.Error\<close> and
  \<^verbatim>\<open>TypeError\<close>.
\<close>

datatype exn = OSError errno | SameFileError | ShutilError | TypeError

text \<open>
  \<open>out\<close> holds the printed lines, oldest first. \<open>hist\<close> records every
  filesystem that was observable after a system call changed it, oldest first.
\<close>

record state =
  fs :: filesys
  out :: "string list"
  hist :: "filesys list"

text \<open>
  A call either raises (\<open>Inl\<close>, with the state at the raise) or returns
  (\<open>Inr\<close>).
\<close>

type_synonym result = "(exn \<times> state) + state"

definition stat :: "filesys \<Rightarrow> path \<Rightarrow> entry option" where
  "stat f p = (if p = [] then Some (Dir True) else map_of f p)"

definition os_path_exists :: "filesys \<Rightarrow> path \<Rightarrow> bool" where
  "os_path_exists f p = (case stat f p of None \<Rightarrow> False | Some e \<Rightarrow> True)"

definition os_path_isdir :: "filesys \<Rightarrow> path \<Rightarrow> bool" where
  "os_path_isdir f p = (case stat f p of Some (Dir w) \<Rightarrow> True | _ \<Rightarrow> False)"

definition os_path_isfile :: "filesys \<Rightarrow> path \<Rightarrow> bool" where
  "os_path_isfile f p = (case stat f p of Some (File b) \<Rightarrow> True | _ \<Rightarrow> False)"

text \<open>
  A filesystem is well formed when every entry has a parent directory. Every
  operation below preserves this.
\<close>

definition wf_fs :: "filesys \<Rightarrow> bool" where
  "wf_fs f = (\<forall>(q, e) \<in> set f. q \<noteq> [] \<and> os_path_isdir f (butlast q))"

text \<open>
  The errno of looking up a path that does not exist: \<^verbatim>\<open>ENOTDIR\<close> when a
  component on the way is a regular file, \<^verbatim>\<open>ENOENT\<close> otherwise.
\<close>

definition missing_errno :: "filesys \<Rightarrow> path \<Rightarrow> errno" where
  "missing_errno f p = (if list_ex (os_path_isfile f) (prefixes p) then ENOTDIR else ENOENT)"

definition commit :: "filesys \<Rightarrow> state \<Rightarrow> state" where
  "commit f s = s\<lparr>fs := f, hist := hist s @ [f]\<rparr>"

definition py_print :: "string \<Rightarrow> state \<Rightarrow> state" where
  "py_print line s = s\<lparr>out := out s @ [line]\<rparr>"

text \<open>The text of a path, as the trace lines show it.\<close>

definition render :: "path \<Rightarrow> string" where
  "render p = concat (map (\<lambda>c. CHR ''/'' # c) p)"

subsection \<open>Sequencing\<close>

definition and_then :: "result \<Rightarrow> (state \<Rightarrow> result) \<Rightarrow> result" where
  "and_then r k = (case r of Inl e \<Rightarrow> Inl e | Inr s \<Rightarrow> k s)"

text \<open>
  A call whose recursion depth is bounded returns \<open>None\<close> when the bound is
  reached.
\<close>

definition and_then_opt :: "result option \<Rightarrow> (state \<Rightarrow> result option) \<Rightarrow> result option" where
  "and_then_opt r k =
     (case r of None \<Rightarrow> None | Some (Inl e) \<Rightarrow> Some (Inl e) | Some (Inr s) \<Rightarrow> k s)"

text \<open>Python's \<^verbatim>\<open>for x in xs: body(x)\<close>, stopping at the first raise.\<close>

primrec for_each :: "('a \<Rightarrow> state \<Rightarrow> result) \<Rightarrow> 'a list \<Rightarrow> state \<Rightarrow> result" where
  "for_each body [] s = Inr s"
| "for_each body (x # xs) s = and_then (body x s) (for_each body xs)"

primrec for_each_opt ::
  "('a \<Rightarrow> state \<Rightarrow> result option) \<Rightarrow> 'a list \<Rightarrow> state \<Rightarrow> result option" where
  "for_each_opt body [] s = Some (Inr s)"
| "for_each_opt body (x # xs) s = and_then_opt (body x s) (for_each_opt body xs)"

subsection \<open>The calls into the standard library\<close>

text \<open>
  \<^verbatim>\<open>os.mkdir\<close>: the parent is resolved first, then an existing path is
  \<^verbatim>\<open>EEXIST\<close>, then the parent must allow the creation.
\<close>

definition os_mkdir :: "path \<Rightarrow> state \<Rightarrow> result" where
  "os_mkdir p s =
     (if p = [] then Inl (OSError EEXIST, s)
      else case stat (fs s) (butlast p) of
        None \<Rightarrow> Inl (OSError (missing_errno (fs s) p), s)
      | Some (File b) \<Rightarrow> Inl (OSError ENOTDIR, s)
      | Some (Dir w) \<Rightarrow>
          if os_path_exists (fs s) p then Inl (OSError EEXIST, s)
          else if \<not> w then Inl (OSError EACCES, s)
          else Inr (commit (AList.update p (Dir True) (fs s)) s))"

text \<open>
  \<^verbatim>\<open>os.makedirs(name)\<close> with \<^verbatim>\<open>exist_ok=False\<close>:
  \<^verbatim>\<open>
  head, tail = path.split(name)
  if head and tail and not path.exists(head):
      try:
          makedirs(head, exist_ok=exist_ok)
      except FileExistsError:
          pass
  mkdir(name, mode)
  \<close>
\<close>

function os_makedirs :: "path \<Rightarrow> state \<Rightarrow> result" where
  "os_makedirs p s =
     (if p \<noteq> [] \<and> \<not> os_path_exists (fs s) (butlast p) then
        (case os_makedirs (butlast p) s of
           Inl (e, s') \<Rightarrow> if e = OSError EEXIST then os_mkdir p s' else Inl (e, s')
         | Inr s' \<Rightarrow> os_mkdir p s')
      else os_mkdir p s)"
  by pat_completeness auto
termination
  by (relation "measure (\<lambda>(p, s). length p)") auto

declare os_makedirs.simps [simp del]

text \<open>
  \<^verbatim>\<open>open(dst, 'wb')\<close> followed by the write: the file is created or truncated,
  then filled.
\<close>

definition write_file :: "path \<Rightarrow> string \<Rightarrow> state \<Rightarrow> result" where
  "write_file dst b s =
     (if dst = [] then Inl (OSError EISDIR, s)
      else case stat (fs s) (butlast dst) of
        None \<Rightarrow> Inl (OSError (missing_errno (fs s) dst), s)
      | Some (File c) \<Rightarrow> Inl (OSError ENOTDIR, s)
      | Some (Dir w) \<Rightarrow>
          (case stat (fs s) dst of
             Some (Dir w') \<Rightarrow> Inl (OSError EISDIR, s)
           | Some (File c) \<Rightarrow>
               Inr (commit (AList.update dst (File b) (fs s))
                     (commit (AList.update dst (File []) (fs s)) s))
           | None \<Rightarrow>
               if \<not> w then Inl (OSError EACCES, s)
               else Inr (commit (AList.update dst (File b) (fs s))
                          (commit (AList.update dst (File []) (fs s)) s))))"

text \<open>
  \<^verbatim>\<open>shutil.copyfile(src, dst)\<close>: the same file is refused, the source is opened
  for reading, then the destination for writing.
\<close>

definition shutil_copyfile :: "path \<Rightarrow> path \<Rightarrow> state \<Rightarrow> result" where
  "shutil_copyfile src dst s =
     (if src = dst \<and> os_path_exists (fs s) src then Inl (SameFileError, s)
      else case stat (fs s) src of
        None \<Rightarrow> Inl (OSError (missing_errno (fs s) src), s)
      | Some (Dir w) \<Rightarrow> Inl (OSError EISDIR, s)
      | Some (File b) \<Rightarrow> write_file dst b s)"

text \<open>
  \<^verbatim>\<open>shutil.copy(src, dst)\<close> and \<^verbatim>\<open>shutil.copy2\<close>: into a directory the
  file keeps its name.
\<close>

definition shutil_copy :: "path \<Rightarrow> path \<Rightarrow> state \<Rightarrow> result" where
  "shutil_copy src dst s =
     (if os_path_isdir (fs s) dst \<and> src \<noteq> [] then shutil_copyfile src (dst @ [last src]) s
      else shutil_copyfile src dst s)"

text \<open>
  \<^verbatim>\<open>shutil.rmtree(path)\<close>: the directory and everything below it is removed
  (taken as one step).
\<close>

definition shutil_rmtree :: "path \<Rightarrow> state \<Rightarrow> result" where
  "shutil_rmtree p s =
     (case stat (fs s) p of
        None \<Rightarrow> Inl (OSError (missing_errno (fs s) p), s)
      | Some (File b) \<Rightarrow> Inl (OSError ENOTDIR, s)
      | Some (Dir w) \<Rightarrow> Inr (commit (filter (\<lambda>(q, e). \<not> prefix p q) (fs s)) s))"

text \<open>\<^verbatim>\<open>os.listdir(path)\<close>: the names in a directory, each once.\<close>

definition os_listdir :: "filesys \<Rightarrow> path \<Rightarrow> errno + string list" where
  "os_listdir f p =
     (case stat f p of
        None \<Rightarrow> Inl (missing_errno f p)
      | Some (File b) \<Rightarrow> Inl ENOTDIR
      | Some (Dir w) \<Rightarrow>
          Inr (remdups (map (\<lambda>(q, e). last q)
                 (filter (\<lambda>(q, e). q \<noteq> [] \<and> butlast q = p) f))))"

text \<open>
  \<^verbatim>\<open>shutil.copytree(src, dst, symlinks=True, ignore_dangling_symlinks=True)\<close>:
  the source is listed, the destination must be new, every entry is copied, and the
  failures of the entries are raised together at the end. The first argument bounds
  the recursion depth.
\<close>

primrec collect_errors ::
  "('a \<Rightarrow> state \<Rightarrow> result option) \<Rightarrow> 'a list \<Rightarrow> bool \<times> state \<Rightarrow> (bool \<times> state) option" where
  "collect_errors body [] acc = Some acc"
| "collect_errors body (x # xs) acc =
     (case body x (snd acc) of
        None \<Rightarrow> None
      | Some (Inl (e, s')) \<Rightarrow> collect_errors body xs (True, s')
      | Some (Inr s') \<Rightarrow> collect_errors body xs (fst acc, s'))"

primrec shutil_copytree :: "nat \<Rightarrow> path \<Rightarrow> path \<Rightarrow> state \<Rightarrow> result option" where
  "shutil_copytree 0 = (\<lambda>src dst s. None)"
| "shutil_copytree (Suc n) = (\<lambda>src dst s.
     case os_listdir (fs s) src of
       Inl e \<Rightarrow> Some (Inl (OSError e, s))
     | Inr names \<Rightarrow>
         (case os_makedirs dst s of
            Inl e \<Rightarrow> Some (Inl e)
          | Inr s1 \<Rightarrow>
              (case collect_errors
                      (\<lambda>name s'.
                         if os_path_isdir (fs s) (src @ [name])
                         then shutil_copytree n (src @ [name]) (dst @ [name]) s'
                         else Some (shutil_copy (src @ [name]) (dst @ [name]) s'))
                      names (False, s1) of
                 None \<Rightarrow> None
               | Some (failed, s2) \<Rightarrow>
                   Some (if failed then Inl (ShutilError, s2) else Inr s2))))"

section \<open>The two helpers of the script\<close>

text \<open>
  \<^verbatim>\<open>
  def mkdir_p(path):
    print("CREATE: " + path)
    try:
      os.makedirs(path)
    except OSError as exception:
      if exception.errno != errno.EEXIST:
        raise
  \<close>
\<close>

definition mkdir_p :: "path \<Rightarrow> state \<Rightarrow> result" where
  "mkdir_p p s =
     (case os_makedirs p (py_print (''CREATE: '' @ render p) s) of
        Inr s' \<Rightarrow> Inr s'
      | Inl (e, s') \<Rightarrow>
          (case e of
             OSError n \<Rightarrow> if n \<noteq> EEXIST then Inl (e, s') else Inr s'
           | _ \<Rightarrow> Inl (e, s')))"

text \<open>
  \<^verbatim>\<open>
  def copytree(src, dst):
    if os.path.isdir(src):
        if not os.path.exists(dst):
            mkdir_p(dst)
        for name in os.listdir(src):
            copytree(os.path.join(src, name),
                     os.path.join(dst, name))
    else:
        print("COPY: " + dst)
        shutil.copyfile(src, dst)
  \<close>
  The first argument bounds the recursion depth.
\<close>

primrec copytree :: "nat \<Rightarrow> path \<Rightarrow> path \<Rightarrow> state \<Rightarrow> result option" where
  "copytree 0 = (\<lambda>src dst s. None)"
| "copytree (Suc n) = (\<lambda>src dst s.
     if os_path_isdir (fs s) src then
       (case (if \<not> os_path_exists (fs s) dst then mkdir_p dst s else Inr s) of
          Inl e \<Rightarrow> Some (Inl e)
        | Inr s1 \<Rightarrow>
            (case os_listdir (fs s1) src of
               Inl e \<Rightarrow> Some (Inl (OSError e, s1))
             | Inr names \<Rightarrow>
                 for_each_opt (\<lambda>name. copytree n (src @ [name]) (dst @ [name])) names s1))
     else Some (shutil_copyfile src dst (py_print (''COPY: '' @ render dst) s)))"

section \<open>The script\<close>

subsection \<open>Arguments\<close>

text \<open>
  The command line as \<^verbatim>\<open>argparse\<close> sees it: the value given to
  \<^verbatim>\<open>--os\<close> and to \<^verbatim>\<open>--build\<close>, if any, and whether
  \<^verbatim>\<open>--clean\<close> is present.
\<close>

record cmdline =
  given_os :: "string option"
  given_build :: "string option"
  given_clean :: bool

record args =
  os :: string
  build :: string
  clean :: bool

datatype usage_error = UsageError

text \<open>
  \<^verbatim>\<open>
  parser.add_argument('--os', choices=['windows','linux','mac'], required=True, ...)
  parser.add_argument('--build', default='full', ...)
  parser.add_argument('--clean', action='store_true', ...)
  args = parser.parse_args()
  \<close>
\<close>

definition parse_args :: "cmdline \<Rightarrow> usage_error + args" where
  "parse_args c =
     (case given_os c of
        None \<Rightarrow> Inl UsageError
      | Some v \<Rightarrow>
          if v \<in> set [''windows'', ''linux'', ''mac'']
          then Inr \<lparr>os = v,
                    build = (case given_build c of None \<Rightarrow> ''full'' | Some b \<Rightarrow> b),
                    clean = given_clean c\<rparr>
          else Inl UsageError)"

text \<open>
  \<^verbatim>\<open>hasattr(args, 'clean')\<close>: a \<^verbatim>\<open>store_true\<close> argument is an
  attribute of every parsed namespace, with value \<^verbatim>\<open>False\<close> when the flag is
  absent.
\<close>

definition hasattr_clean :: "args \<Rightarrow> bool" where
  "hasattr_clean a = True"

subsection \<open>Paths\<close>

text \<open>
  \<open>base\<close> is \<^verbatim>\<open>base_path\<close>, the parent of the directory holding the
  script.
\<close>

definition common_path :: "path \<Rightarrow> path" where
  "common_path base = base @ [''Package'', ''Environment'', ''Common'']"

definition os_path :: "path \<Rightarrow> args \<Rightarrow> path option" where
  "os_path base a =
     (if os a = ''windows'' then Some (base @ [''Package'', ''Environment'', ''Windows''])
      else if os a = ''linux'' then Some (base @ [''Package'', ''Environment'', ''Linux''])
      else if os a = ''mac'' then Some (base @ [''Package'', ''Environment'', ''MacOS''])
      else None)"

definition output_path :: "path \<Rightarrow> args \<Rightarrow> path" where
  "output_path base a = base @ [''Artifacts'', os a, ''RetroFE'']"

subsection \<open>Clearing and creating the output directory\<close>

text \<open>
  \<^verbatim>\<open>
  if os.path.exists(output_path) and hasattr(args, 'clean'):
    shutil.rmtree(output_path)
  \<close>
\<close>

definition clean_output :: "path \<Rightarrow> args \<Rightarrow> state \<Rightarrow> result" where
  "clean_output base a s =
     (if os_path_exists (fs s) (output_path base a) \<and> hasattr_clean a
      then shutil_rmtree (output_path base a) s
      else Inr s)"

text \<open>
  \<^verbatim>\<open>
  if args.build != 'none' and not os.path.exists(output_path):
    os.makedirs(output_path)
  \<close>
\<close>

definition ensure_output :: "path \<Rightarrow> args \<Rightarrow> state \<Rightarrow> result" where
  "ensure_output base a s =
     (if build a \<noteq> ''none'' \<and> \<not> os_path_exists (fs s) (output_path base a)
      then os_makedirs (output_path base a) s
      else Inr s)"

definition prepare_output :: "path \<Rightarrow> args \<Rightarrow> state \<Rightarrow> result" where
  "prepare_output base a s = and_then (clean_output base a s) (ensure_output base a)"

subsection \<open>Copying the assets\<close>

definition dirs_to_create :: "path list" where
  "dirs_to_create =
     [[''roms''],
      [''medium_artwork''],
      [''medium_artwork'', ''logo''],
      [''medium_artwork'', ''video''],
      [''system_artwork'']]"

definition startswith_underscore :: "string \<Rightarrow> bool" where
  "startswith_underscore name = (case name of [] \<Rightarrow> False | c # cs \<Rightarrow> c = CHR ''_'')"

text \<open>
  \<^verbatim>\<open>
  dirs = [d for d in os.listdir(collection_path)
          if os.path.isdir(os.path.join(collection_path, d))]
  for collection in dirs:
    if not collection.startswith('_'):
        collection_base = os.path.join(output_path, 'collections', collection)
        for subdir in dirs_to_create:
            mkdir_p(os.path.join(collection_base, subdir))
  \<close>
\<close>

definition scaffold_collection :: "path \<Rightarrow> string \<Rightarrow> state \<Rightarrow> result" where
  "scaffold_collection output collection s =
     (if \<not> startswith_underscore collection
      then for_each (\<lambda>subdir. mkdir_p (output @ [''collections'', collection] @ subdir))
             dirs_to_create s
      else Inr s)"

definition scaffold_collections :: "path \<Rightarrow> state \<Rightarrow> result" where
  "scaffold_collections output s =
     (case os_listdir (fs s) (output @ [''collections'']) of
        Inl e \<Rightarrow> Inl (OSError e, s)
      | Inr names \<Rightarrow>
          for_each (scaffold_collection output)
            (filter (\<lambda>d. os_path_isdir (fs s) (output @ [''collections''] @ [d])) names) s)"

text \<open>
  \<^verbatim>\<open>
  if args.build == 'full':
    collection_path = os.path.join(output_path, 'collections')
    copytree(common_path, output_path)
    copytree(os_path, output_path)
    mkdir_p(os.path.join(output_path, 'meta', 'mamelist'))
    ...
  \<close>
\<close>

definition build_full :: "nat \<Rightarrow> path \<Rightarrow> args \<Rightarrow> state \<Rightarrow> result option" where
  "build_full n base a s =
     and_then_opt (copytree n (common_path base) (output_path base a) s) (\<lambda>s1.
     and_then_opt
       (case os_path base a of
          None \<Rightarrow> Some (Inl (TypeError, s1))
        | Some osp \<Rightarrow> copytree n osp (output_path base a) s1) (\<lambda>s2.
     Some (and_then (mkdir_p (output_path base a @ [''meta'', ''mamelist'']) s2)
             (scaffold_collections (output_path base a)))))"

text \<open>
  \<^verbatim>\<open>
  elif args.build == 'layout':
    layout_dest_path = os.path.join(output_path, 'layouts')
    layout_common_path = os.path.join(common_path, 'layouts')
    layout_os_path = os.path.join(os_path, 'layouts')
    if not os.path.exists(layout_dest_path):
      os.makedirs(layout_dest_path)
    if os.path.exists(layout_common_path):
      copytree(layout_common_path, layout_dest_path)
    if os.path.exists(layout_os_path):
      copytree(layout_os_path, layout_dest_path)
  \<close>
\<close>

definition build_layout :: "nat \<Rightarrow> path \<Rightarrow> args \<Rightarrow> state \<Rightarrow> result option" where
  "build_layout n base a s =
     (case os_path base a of
        None \<Rightarrow> Some (Inl (TypeError, s))
      | Some osp \<Rightarrow>
          and_then_opt
            (Some (if \<not> os_path_exists (fs s) (output_path base a @ [''layouts''])
                   then os_makedirs (output_path base a @ [''layouts'']) s
                   else Inr s)) (\<lambda>s1.
          and_then_opt
            (if os_path_exists (fs s1) (common_path base @ [''layouts''])
             then copytree n (common_path base @ [''layouts''])
                    (output_path base a @ [''layouts'']) s1
             else Some (Inr s1)) (\<lambda>s2.
          if os_path_exists (fs s2) (osp @ [''layouts''])
          then copytree n (osp @ [''layouts'']) (output_path base a @ [''layouts'']) s2
          else Some (Inr s2))))"

definition copy_assets :: "nat \<Rightarrow> path \<Rightarrow> args \<Rightarrow> state \<Rightarrow> result option" where
  "copy_assets n base a s =
     (if build a = ''full'' then build_full n base a s
      else if build a = ''layout'' then build_layout n base a s
      else Some (Inr s))"

subsection \<open>Placing the executable\<close>

definition wants_executable :: "args \<Rightarrow> bool" where
  "wants_executable a = (build a = ''full'' \<or> build a = ''core'' \<or> build a = ''engine'')"

text \<open>
  \<^verbatim>\<open>
  src_exe = os.path.join(base_path, 'RetroFE', 'Build', 'Release', 'retrofe.exe')
  core_path = os.path.join(output_path, 'retrofe')
  if not os.path.exists(core_path):
    os.makedirs(core_path)
  shutil.copy(src_exe, core_path)
  \<close>
\<close>

definition src_exe_windows :: "path \<Rightarrow> path" where
  "src_exe_windows base = base @ [''RetroFE'', ''Build'', ''Release'', ''retrofe.exe'']"

definition place_windows :: "path \<Rightarrow> args \<Rightarrow> state \<Rightarrow> result" where
  "place_windows base a s =
     and_then
       (if \<not> os_path_exists (fs s) (output_path base a @ [''retrofe''])
        then os_makedirs (output_path base a @ [''retrofe'']) s
        else Inr s)
       (shutil_copy (src_exe_windows base) (output_path base a @ [''retrofe'']))"

text \<open>
  \<^verbatim>\<open>
  src_exe = os.path.join(base_path, 'RetroFE', 'Build', 'retrofe')
  shutil.copy(src_exe, output_path)
  \<close>
\<close>

definition src_exe_linux :: "path \<Rightarrow> path" where
  "src_exe_linux base = base @ [''RetroFE'', ''Build'', ''retrofe'']"

definition place_linux :: "path \<Rightarrow> args \<Rightarrow> state \<Rightarrow> result" where
  "place_linux base a s = shutil_copy (src_exe_linux base) (output_path base a) s"

text \<open>
  \<^verbatim>\<open>
  release_dir = os.path.join(base_path, 'RetroFE', 'Build', 'Release')
  src_app = os.path.join(release_dir, 'RetroFE.app')
  src_exe = os.path.join(release_dir, 'retrofe')
  dest_app = os.path.join(output_path, 'RetroFE.app')
  if os.path.exists(src_app):
      if os.path.exists(dest_app):
          shutil.rmtree(dest_app)
      shutil.copytree(src_app, dest_app, symlinks=True, ignore_dangling_symlinks=True)
  elif os.path.exists(src_exe):
      shutil.copy(src_exe, output_path)
  else:
      print("Error: Neither RetroFE.app nor retrofe binary found in Release folder.")
  \<close>
\<close>

definition release_dir :: "path \<Rightarrow> path" where
  "release_dir base = base @ [''RetroFE'', ''Build'', ''Release'']"

definition place_mac :: "nat \<Rightarrow> path \<Rightarrow> args \<Rightarrow> state \<Rightarrow> result option" where
  "place_mac n base a s =
     (if os_path_exists (fs s) (release_dir base @ [''RetroFE.app''])
      then and_then_opt
             (Some (if os_path_exists (fs s) (output_path base a @ [''RetroFE.app''])
                    then shutil_rmtree (output_path base a @ [''RetroFE.app'']) s
                    else Inr s))
             (shutil_copytree n (release_dir base @ [''RetroFE.app''])
                (output_path base a @ [''RetroFE.app'']))
      else if os_path_exists (fs s) (release_dir base @ [''retrofe''])
      then Some (shutil_copy (release_dir base @ [''retrofe'']) (output_path base a) s)
      else Some (Inr (py_print
             ''Error: Neither RetroFE.app nor retrofe binary found in Release folder.'' s)))"

definition place_executable :: "nat \<Rightarrow> path \<Rightarrow> args \<Rightarrow> state \<Rightarrow> result option" where
  "place_executable n base a s =
     (if os a = ''windows'' then
        (if wants_executable a then Some (place_windows base a s) else Some (Inr s))
      else if os a = ''linux'' then
        (if wants_executable a then Some (place_linux base a s) else Some (Inr s))
      else if os a = ''mac'' then
        (if wants_executable a then place_mac n base a s else Some (Inr s))
      else Some (Inr s))"

subsection \<open>The whole run\<close>

text \<open>
  The statements of the script in their order. \<open>Some (Inr s')\<close> is exit status
  zero, \<open>Some (Inl (e, s'))\<close> the uncaught exception \<open>e\<close> (a backtrace and a
  non-zero exit status).
\<close>

definition script :: "nat \<Rightarrow> path \<Rightarrow> args \<Rightarrow> state \<Rightarrow> result option" where
  "script n base a s =
     and_then_opt (Some (prepare_output base a s)) (\<lambda>s0.
     and_then_opt (copy_assets n base a s0) (place_executable n base a))"

section \<open>Notions used in the statements\<close>

text \<open>The state a call leaves behind, whether it returned or raised.\<close>

definition state_of :: "result \<Rightarrow> state" where
  "state_of r = (case r of Inl (e, s) \<Rightarrow> s | Inr s \<Rightarrow> s)"

text \<open>
  From \<open>f\<close> to \<open>f'\<close> nothing changed except that missing directories on the
  way to \<open>p\<close> were created.
\<close>

definition creates_prefixes :: "path \<Rightarrow> filesys \<Rightarrow> filesys \<Rightarrow> bool" where
  "creates_prefixes p f f' =
     (\<forall>q. stat f' q = stat f q \<or>
          (stat f q = None \<and> prefix q p \<and> stat f' q = Some (Dir True)))"

text \<open>
  From \<open>f\<close> to \<open>f'\<close> nothing outside the tree at \<open>d\<close> changed except that
  missing directories on the way to \<open>d\<close> were created.
\<close>

definition touches_only :: "path \<Rightarrow> filesys \<Rightarrow> filesys \<Rightarrow> bool" where
  "touches_only d f f' =
     (\<forall>q. \<not> prefix d q \<longrightarrow>
        stat f' q = stat f q \<or>
        (stat f q = None \<and> strict_prefix q d \<and> stat f' q = Some (Dir True)))"

text \<open>The filesystem and every recorded earlier filesystem are well formed.\<close>

definition all_wf :: "state \<Rightarrow> bool" where
  "all_wf s = (wf_fs (fs s) \<and> (\<forall>f \<in> set (hist s). wf_fs f))"

text \<open>
  Every path at or below \<open>p\<close> is fewer than \<open>n\<close> components below it, and
  \<open>n\<close> is positive: a recursion of depth \<open>n\<close> reaches all of the tree at
  \<open>p\<close>.
\<close>

definition shallow :: "filesys \<Rightarrow> path \<Rightarrow> nat \<Rightarrow> bool" where
  "shallow f p n = (0 < n \<and> (\<forall>(q, e) \<in> set f. prefix p q \<longrightarrow> length q < length p + n))"

text \<open>
  From \<open>f\<close> to \<open>f'\<close> nothing changed except that missing paths became
  directories.
\<close>

definition grows :: "filesys \<Rightarrow> filesys \<Rightarrow> bool" where
  "grows f f' =
     (\<forall>q. stat f' q = stat f q \<or> (stat f q = None \<and> stat f' q = Some (Dir True)))"

text \<open>
  The recorded history of \<open>s'\<close> continues the one of \<open>s\<close>, and ends with the
  filesystem of \<open>s'\<close>.
\<close>

definition recorded :: "state \<Rightarrow> state \<Rightarrow> bool" where
  "recorded s s' = (\<exists>hs. hist s' = hist s @ hs \<and> fs s' = last (fs s # hs))"

section \<open>Example states\<close>

text \<open>
  A small filesystem: a directory \<^verbatim>\<open>/srv\<close> holding a regular file
  \<^verbatim>\<open>notes\<close> and a directory \<^verbatim>\<open>locked\<close> in which nothing may be
  created.
\<close>

definition demo :: state where
  "demo = \<lparr>fs = [([''srv''], Dir True),
                 ([''srv'', ''notes''], File ''n''),
                 ([''srv'', ''locked''], Dir False)],
           out = [], hist = []\<rparr>"

text \<open>
  A checkout at \<^verbatim>\<open>/repo\<close>: common assets with two collections
  (\<^verbatim>\<open>mario\<close>, which holds a regular file named \<^verbatim>\<open>roms\<close>, and
  \<^verbatim>\<open>_hidden\<close>) and a settings file, an empty directory of Linux assets, the
  output of an earlier Linux run, and no compiled executable.
\<close>

definition checkout :: state where
  "checkout =
     \<lparr>fs = [([''repo''], Dir True),
            ([''repo'', ''Package''], Dir True),
            ([''repo'', ''Package'', ''Environment''], Dir True),
            ([''repo'', ''Package'', ''Environment'', ''Common''], Dir True),
            ([''repo'', ''Package'', ''Environment'', ''Common'', ''collections''], Dir True),
            ([''repo'', ''Package'', ''Environment'', ''Common'', ''collections'', ''mario''],
               Dir True),
            ([''repo'', ''Package'', ''Environment'', ''Common'', ''collections'', ''mario'',
              ''roms''], File ''list''),
            ([''repo'', ''Package'', ''Environment'', ''Common'', ''collections'', ''_hidden''],
               Dir True),
            ([''repo'', ''Package'', ''Environment'', ''Common'', ''settings.conf''],
               File ''fullscreen=yes''),
            ([''repo'', ''Package'', ''Environment'', ''Linux''], Dir True),
            ([''repo'', ''Artifacts''], Dir True),
            ([''repo'', ''Artifacts'', ''linux''], Dir True),
            ([''repo'', ''Artifacts'', ''linux'', ''RetroFE''], Dir True),
            ([''repo'', ''Artifacts'', ''linux'', ''RetroFE'', ''old.txt''], File ''old'')],
       out = [], hist = []\<rparr>"

text \<open>
  A directory \<^verbatim>\<open>/a/b\<close> that holds a directory named \<^verbatim>\<open>b\<close>
  again, with a file \<^verbatim>\<open>x\<close> at both levels.
\<close>

definition nested :: state where
  "nested =
     \<lparr>fs = [([''a''], Dir True),
            ([''a'', ''b''], Dir True),
            ([''a'', ''b'', ''b''], Dir True),
            ([''a'', ''b'', ''b'', ''x''], File ''new''),
            ([''a'', ''b'', ''b'', ''y''], File ''y''),
            ([''a'', ''b'', ''x''], File ''old'')],
       out = [], hist = []\<rparr>"

text \<open>
  An output tree as the asset copies of the \<^verbatim>\<open>full\<close> profile leave it:
  two collections, \<^verbatim>\<open>mario\<close> with a regular file named
  \<^verbatim>\<open>roms\<close>, and \<^verbatim>\<open>_hidden\<close>.
\<close>

definition staged :: state where
  "staged =
     \<lparr>fs = [([''out''], Dir True),
            ([''out'', ''collections''], Dir True),
            ([''out'', ''collections'', ''mario''], Dir True),
            ([''out'', ''collections'', ''mario'', ''roms''], File ''list''),
            ([''out'', ''collections'', ''_hidden''], Dir True),
            ([''out'', ''collections'', ''readme.txt''], File ''r'')],
       out = [], hist = []\<rparr>"

text \<open>
  Two checkouts with a \<^verbatim>\<open>layouts\<close> directory on one side only: among the
  common assets in the first, among the Windows assets in the second.
\<close>

definition themed_common :: state where
  "themed_common =
     \<lparr>fs = [([''repo''], Dir True),
            ([''repo'', ''Package''], Dir True),
            ([''repo'', ''Package'', ''Environment''], Dir True),
            ([''repo'', ''Package'', ''Environment'', ''Common''], Dir True),
            ([''repo'', ''Package'', ''Environment'', ''Common'', ''layouts''], Dir True),
            ([''repo'', ''Package'', ''Environment'', ''Common'', ''layouts'', ''main.xml''],
               File ''<layout/>''),
            ([''repo'', ''Package'', ''Environment'', ''Linux''], Dir True)],
       out = [], hist = []\<rparr>"

definition themed_windows :: state where
  "themed_windows =
     \<lparr>fs = [([''repo''], Dir True),
            ([''repo'', ''Package''], Dir True),
            ([''repo'', ''Package'', ''Environment''], Dir True),
            ([''repo'', ''Package'', ''Environment'', ''Common''], Dir True),
            ([''repo'', ''Package'', ''Environment'', ''Windows''], Dir True),
            ([''repo'', ''Package'', ''Environment'', ''Windows'', ''layouts''], Dir True),
            ([''repo'', ''Package'', ''Environment'', ''Windows'', ''layouts'', ''win.xml''],
               File ''<win/>'')],
       out = [], hist = []\<rparr>"

text \<open>
  An output tree in which the collection \<^verbatim>\<open>mario\<close> holds a regular file
  named \<^verbatim>\<open>medium_artwork\<close>.
\<close>

definition blocked :: state where
  "blocked =
     \<lparr>fs = [([''out''], Dir True),
            ([''out'', ''collections''], Dir True),
            ([''out'', ''collections'', ''mario''], Dir True),
            ([''out'', ''collections'', ''mario'', ''medium_artwork''], File ''m'')],
       out = [], hist = []\<rparr>"

text \<open>
  A checkout at \<^verbatim>\<open>/repo\<close> for a mac build: common assets with the collection
  \<^verbatim>\<open>mario\<close> and a settings file, mac assets with one file, and no compiled
  executable.
\<close>

definition mac_checkout :: state where
  "mac_checkout =
     \<lparr>fs = [([''repo''], Dir True),
            ([''repo'', ''Package''], Dir True),
            ([''repo'', ''Package'', ''Environment''], Dir True),
            ([''repo'', ''Package'', ''Environment'', ''Common''], Dir True),
            ([''repo'', ''Package'', ''Environment'', ''Common'', ''collections''], Dir True),
            ([''repo'', ''Package'', ''Environment'', ''Common'', ''collections'', ''mario''],
               Dir True),
            ([''repo'', ''Package'', ''Environment'', ''Common'', ''settings.conf''],
               File ''fullscreen=yes''),
            ([''repo'', ''Package'', ''Environment'', ''MacOS''], Dir True),
            ([''repo'', ''Package'', ''Environment'', ''MacOS'', ''controls.conf''],
               File ''select=return'')],
       out = [], hist = []\<rparr>"

section \<open>Facts about the filesystem calls\<close>

lemma state_of_simps [simp]: "state_of (Inl (e, s)) = s" "state_of (Inr s) = s"
  by (simp_all add: state_of_def)

lemma commit_simps [simp]:
  "fs (commit f s) = f" "out (commit f s) = out s" "hist (commit f s) = hist s @ [f]"
  by (simp_all add: commit_def)

lemma py_print_simps [simp]:
  "fs (py_print l s) = fs s" "out (py_print l s) = out s @ [l]" "hist (py_print l s) = hist s"
  by (simp_all add: py_print_def)

lemma stat_update: "stat (AList.update p e f) q = (if q = p \<and> p \<noteq> [] then Some e else stat f q)"
  by (auto simp: stat_def update_conv')

lemma stat_Nil [simp]: "stat f [] = Some (Dir True)"
  by (simp add: stat_def)

lemma exists_iff: "os_path_exists f p \<longleftrightarrow> stat f p \<noteq> None"
  by (simp add: os_path_exists_def split: option.splits)

lemma isdir_iff: "os_path_isdir f p \<longleftrightarrow> (\<exists>w. stat f p = Some (Dir w))"
  by (simp add: os_path_isdir_def split: option.splits entry.splits)

lemma isfile_iff: "os_path_isfile f p \<longleftrightarrow> (\<exists>b. stat f p = Some (File b))"
  by (simp add: os_path_isfile_def split: option.splits entry.splits)

lemma wf_fs_parent:
  assumes "wf_fs f" "stat f p \<noteq> None" "p \<noteq> []"
  shows "os_path_isdir f (butlast p)"
proof -
  from assms obtain e where "map_of f p = Some e" by (auto simp: stat_def)
  then have "(p, e) \<in> set f" by (rule map_of_SomeD)
  with assms(1) show ?thesis by (auto simp: wf_fs_def)
qed

lemma wf_fs_prefix:
  assumes "wf_fs f" "stat f (p @ r) \<noteq> None" "r \<noteq> []"
  shows "os_path_isdir f p"
  using assms(2,3)
proof (induction r rule: rev_induct)
  case Nil then show ?case by simp
next
  case (snoc x xs)
  have d: "os_path_isdir f (p @ xs)"
    using wf_fs_parent[OF assms(1) snoc.prems(1)] by (simp add: butlast_append)
  show ?case
  proof (cases "xs = []")
    case True with d show ?thesis by simp
  next
    case False
    from d have "stat f (p @ xs) \<noteq> None" by (auto simp: isdir_iff)
    from snoc.IH[OF this False] show ?thesis .
  qed
qed

lemma wf_fs_update:
  assumes "wf_fs f" "p \<noteq> []" "os_path_isdir f (butlast p)"
    and keep: "\<And>b. e = File b \<Longrightarrow> \<not> os_path_isdir f p"
  shows "wf_fs (AList.update p e f)"
  unfolding wf_fs_def
proof (clarify, intro conjI)
  fix q e' assume m: "(q, e') \<in> set (AList.update p e f)"
  then have "q \<in> set (map fst (AList.update p e f))" by force
  then have q: "q = p \<or> q \<in> fst ` set f" by (auto simp: update_keys split: if_splits)
  have qne: "q \<noteq> []" using q assms(1,2) by (auto simp: wf_fs_def)
  show "q \<noteq> []" by (rule qne)
  have par: "os_path_isdir f (butlast q)"
    using q assms(1,3) by (auto simp: wf_fs_def)
  show "os_path_isdir (AList.update p e f) (butlast q)"
  proof (cases "butlast q = p")
    case True
    with par keep show ?thesis by (cases e) (auto simp: isdir_iff stat_update)
  next
    case False
    with par show ?thesis by (auto simp: isdir_iff stat_update)
  qed
qed

lemma wf_fs_rmtree: assumes "wf_fs f" shows "wf_fs (filter (\<lambda>(q, e). \<not> prefix p q) f)"
  unfolding wf_fs_def
proof (clarify, intro conjI)
  fix q e assume m: "(q, e) \<in> set (filter (\<lambda>(q, e). \<not> prefix p q) f)"
  then have qf: "(q, e) \<in> set f" and np: "\<not> prefix p q" by auto
  from qf assms show "q \<noteq> []" by (auto simp: wf_fs_def)
  from qf assms have par: "os_path_isdir f (butlast q)" by (auto simp: wf_fs_def)
  have npb: "\<not> prefix p (butlast q)"
    using np by (meson prefix_order.trans prefixeq_butlast)
  show "os_path_isdir (filter (\<lambda>(q, e). \<not> prefix p q) f) (butlast q)"
  proof (cases "butlast q = []")
    case True then show ?thesis by (auto simp: isdir_iff)
  next
    case False
    from par obtain w where "map_of f (butlast q) = Some (Dir w)"
      using False by (auto simp: isdir_iff stat_def)
    then have "map_of (filter (\<lambda>(q, e). \<not> prefix p q) f) (butlast q) = Some (Dir w)"
      using npb by (simp add: map_of_filter_in)
    then show ?thesis using False by (auto simp: isdir_iff stat_def)
  qed
qed

lemma creates_prefixes_refl: "creates_prefixes p f f"
  by (simp add: creates_prefixes_def)

lemma creates_prefixes_trans:
  "creates_prefixes p f g \<Longrightarrow> creates_prefixes p g h \<Longrightarrow> creates_prefixes p f h"
  unfolding creates_prefixes_def by (metis option.distinct(1))

lemma creates_prefixes_mono:
  "creates_prefixes q f g \<Longrightarrow> prefix q p \<Longrightarrow> creates_prefixes p f g"
  unfolding creates_prefixes_def by (meson prefix_order.trans)

lemma touches_only_refl: "touches_only d f f"
  by (simp add: touches_only_def)

lemma touches_only_trans:
  "touches_only d f g \<Longrightarrow> touches_only d g h \<Longrightarrow> touches_only d f h"
  unfolding touches_only_def by (metis option.distinct(1))

lemma touches_only_mono:
  assumes "touches_only q f g" "prefix d q" shows "touches_only d f g"
  unfolding touches_only_def
proof (intro allI impI)
  fix r assume n: "\<not> prefix d r"
  then have nq: "\<not> prefix q r" using assms(2) by (meson prefix_order.trans)
  from assms(1) nq have "stat g r = stat f r \<or>
        (stat f r = None \<and> strict_prefix r q \<and> stat g r = Some (Dir True))"
    by (simp add: touches_only_def)
  moreover have "strict_prefix r q \<Longrightarrow> strict_prefix r d"
    using n assms(2) by (metis prefix_order.less_le_not_le prefix_same_cases strict_prefixI)
  ultimately show "stat g r = stat f r \<or>
        (stat f r = None \<and> strict_prefix r d \<and> stat g r = Some (Dir True))" by blast
qed

lemma creates_prefixes_touches: "creates_prefixes p f g \<Longrightarrow> touches_only p f g"
  unfolding creates_prefixes_def touches_only_def by (metis strict_prefixI)

subsection \<open>mkdir\<close>

lemma os_mkdir_Inl: "os_mkdir p s = Inl (e, s') \<Longrightarrow> s' = s"
  by (auto simp: os_mkdir_def split: if_splits option.splits entry.splits)

lemma os_mkdir_Inr:
  "os_mkdir p s = Inr s' \<Longrightarrow>
     p \<noteq> [] \<and> stat (fs s) (butlast p) = Some (Dir True) \<and> stat (fs s) p = None \<and>
     s' = commit (AList.update p (Dir True) (fs s)) s"
  by (auto simp: os_mkdir_def exists_iff split: if_splits option.splits entry.splits)

lemma os_mkdir_creates: "creates_prefixes p (fs s) (fs (state_of (os_mkdir p s)))"
proof (cases "os_mkdir p s")
  case (Inl x)
  then show ?thesis by (cases x) (auto dest: os_mkdir_Inl simp: creates_prefixes_refl)
next
  case (Inr s')
  from os_mkdir_Inr[OF this] show ?thesis using Inr
    by (auto simp: creates_prefixes_def stat_update)
qed

lemma os_mkdir_out: "out (state_of (os_mkdir p s)) = out s"
  by (cases "os_mkdir p s") (auto dest: os_mkdir_Inl os_mkdir_Inr)

lemma all_wf_commit: "all_wf s \<Longrightarrow> wf_fs f \<Longrightarrow> all_wf (commit f s)"
  by (auto simp: all_wf_def)

lemma os_mkdir_wf: "all_wf s \<Longrightarrow> all_wf (state_of (os_mkdir p s))"
proof (cases "os_mkdir p s")
  case (Inl x)
  assume "all_wf s" with Inl show ?thesis by (cases x) (auto dest: os_mkdir_Inl)
next
  case (Inr s')
  assume w: "all_wf s"
  from os_mkdir_Inr[OF Inr] have p: "p \<noteq> []" "os_path_isdir (fs s) (butlast p)"
    and s': "s' = commit (AList.update p (Dir True) (fs s)) s" by (auto simp: isdir_iff)
  have "wf_fs (AList.update p (Dir True) (fs s))"
    using w p by (intro wf_fs_update) (auto simp: all_wf_def)
  with w show ?thesis using Inr s' by (simp add: all_wf_commit)
qed

subsection \<open>makedirs\<close>

lemma os_makedirs_rel:
  assumes refl: "\<And>s. R s s" and trans: "\<And>a b c. R a b \<Longrightarrow> R b c \<Longrightarrow> R a c"
    and step: "\<And>q s. prefix q p \<Longrightarrow> R s (state_of (os_mkdir q s))"
  shows "R s (state_of (os_makedirs p s))"
  using step
proof (induction p s rule: os_makedirs.induct)
  case (1 p s)
  show ?case
  proof (cases "p \<noteq> [] \<and> \<not> os_path_exists (fs s) (butlast p)")
    case False
    then have "os_makedirs p s = os_mkdir p s" by (subst os_makedirs.simps) auto
    then show ?thesis using "1.prems"[of p s] by simp
  next
    case True
    have ih: "R s (state_of (os_makedirs (butlast p) s))"
      using "1.IH"[OF True] "1.prems" by (meson prefix_order.trans prefixeq_butlast)
    show ?thesis
    proof (cases "os_makedirs (butlast p) s")
      case (Inl x)
      obtain e s' where x: "x = (e, s')" by (cases x)
      show ?thesis
      proof (cases "e = OSError EEXIST")
        case True': True
        have "os_makedirs p s = os_mkdir p s'"
          using True Inl x True' by (subst os_makedirs.simps) simp
        moreover have "R s s'" using ih Inl x by simp
        moreover have "R s' (state_of (os_mkdir p s'))" using "1.prems"[of p s'] by simp
        ultimately show ?thesis using trans by metis
      next
        case False
        have "os_makedirs p s = Inl (e, s')"
          using True Inl x False by (subst os_makedirs.simps) simp
        then show ?thesis using ih Inl x by simp
      qed
    next
      case (Inr s')
      have "os_makedirs p s = os_mkdir p s'"
        using True Inr by (subst os_makedirs.simps) simp
      moreover have "R s s'" using ih Inr by simp
      moreover have "R s' (state_of (os_mkdir p s'))" using "1.prems"[of p s'] by simp
      ultimately show ?thesis using trans by metis
    qed
  qed
qed

lemma os_makedirs_creates: "creates_prefixes p (fs s) (fs (state_of (os_makedirs p s)))"
  by (rule os_makedirs_rel[where R = "\<lambda>s s'. creates_prefixes p (fs s) (fs s')"])
     (auto intro: creates_prefixes_refl creates_prefixes_trans
           creates_prefixes_mono[OF os_mkdir_creates])

lemma os_makedirs_out: "out (state_of (os_makedirs p s)) = out s"
  by (rule os_makedirs_rel[where R = "\<lambda>s s'. out s' = out s"]) (auto simp: os_mkdir_out)

lemma os_makedirs_wf: "all_wf s \<Longrightarrow> all_wf (state_of (os_makedirs p s))"
  using os_makedirs_rel[where R = "\<lambda>s s'. all_wf s \<longrightarrow> all_wf s'" and p = p and s = s]
  by (auto simp: os_mkdir_wf)

lemma wf_fs_missing_below:
  assumes "wf_fs f" "stat f q = None" "r \<noteq> []" shows "stat f (q @ r) = None"
proof (rule ccontr)
  assume "stat f (q @ r) \<noteq> None"
  from wf_fs_prefix[OF assms(1) this assms(3)] assms(2) show False by (simp add: isdir_iff)
qed

lemma wf_fs_file_below:
  assumes "wf_fs f" "stat f q = Some (File b)" "r \<noteq> []" shows "stat f (q @ r) = None"
proof (rule ccontr)
  assume "stat f (q @ r) \<noteq> None"
  from wf_fs_prefix[OF assms(1) this assms(3)] assms(2) show False by (simp add: isdir_iff)
qed

lemma os_makedirs_exists:
  assumes "wf_fs (fs s)" "os_path_exists (fs s) p"
  shows "os_makedirs p s = Inl (OSError EEXIST, s)"
proof (cases "p = []")
  case True
  then show ?thesis by (subst os_makedirs.simps) (simp add: os_mkdir_def)
next
  case False
  have "os_path_isdir (fs s) (butlast p)"
    using wf_fs_parent[OF assms(1) _ False] assms(2) by (simp add: exists_iff)
  then obtain w where w: "stat (fs s) (butlast p) = Some (Dir w)" by (auto simp: isdir_iff)
  then have "os_makedirs p s = os_mkdir p s"
    by (subst os_makedirs.simps) (simp add: exists_iff)
  then show ?thesis using w assms(2) False by (simp add: os_mkdir_def)
qed

lemma os_makedirs_below_file:
  assumes "wf_fs (fs s)" "stat (fs s) q = Some (File b)"
  shows "os_makedirs (q @ x # r) s = Inl (OSError ENOTDIR, s)"
proof (induction r rule: rev_induct)
  case Nil
  have "os_makedirs (q @ [x]) s = os_mkdir (q @ [x]) s"
    using assms(2) by (subst os_makedirs.simps) (simp add: exists_iff butlast_append)
  then show ?case using assms(2) by (simp add: os_mkdir_def butlast_append)
next
  case (snoc y ys)
  have b: "butlast (q @ x # ys @ [y]) = q @ x # ys" by (simp add: butlast_append)
  have "stat (fs s) (q @ x # ys) = None"
    by (rule wf_fs_file_below[OF assms]) simp
  then show ?case using snoc.IH
    by (subst os_makedirs.simps) (simp add: b exists_iff)
qed

lemma os_makedirs_denied:
  assumes "wf_fs (fs s)" "stat (fs s) q = Some (Dir False)" "stat (fs s) (q @ [x]) = None"
  shows "os_makedirs (q @ x # r) s = Inl (OSError EACCES, s)"
proof (induction r rule: rev_induct)
  case Nil
  have "os_makedirs (q @ [x]) s = os_mkdir (q @ [x]) s"
    using assms(2) by (subst os_makedirs.simps) (simp add: exists_iff butlast_append)
  then show ?case using assms(2,3) by (simp add: os_mkdir_def butlast_append exists_iff)
next
  case (snoc y ys)
  have b: "butlast (q @ x # ys @ [y]) = q @ x # ys" by (simp add: butlast_append)
  have "stat (fs s) ((q @ [x]) @ ys) = None"
  proof (cases "ys = []")
    case True then show ?thesis using assms(3) by simp
  next
    case False then show ?thesis by (rule wf_fs_missing_below[OF assms(1,3)])
  qed
  then show ?case using snoc.IH
    by (subst os_makedirs.simps) (simp add: b exists_iff)
qed

lemma os_mkdir_EEXIST: "os_mkdir p s = Inl (OSError EEXIST, s') \<Longrightarrow> os_path_exists (fs s') p"
  by (auto simp: os_mkdir_def exists_iff missing_errno_def
           split: if_splits option.splits entry.splits)

lemma os_makedirs_EEXIST:
  "os_makedirs p s = Inl (OSError EEXIST, s') \<Longrightarrow> os_path_exists (fs s') p"
  by (subst (asm) os_makedirs.simps)
     (auto dest: os_mkdir_EEXIST split: if_splits sum.splits prod.splits)

lemma os_makedirs_Inr:
  "os_makedirs p s = Inr s' \<Longrightarrow> stat (fs s') p = Some (Dir True)"
  by (subst (asm) os_makedirs.simps)
     (auto dest!: os_mkdir_Inr simp: stat_update split: if_splits sum.splits prod.splits)

lemma os_makedirs_Inr_missing:
  assumes "os_makedirs p s = Inr s'" shows "stat (fs s) p = None"
proof (rule ccontr)
  assume a: "stat (fs s) p \<noteq> None"
  have k: "stat (fs s1) p \<noteq> None" if "creates_prefixes (butlast p) (fs s) (fs s1)" for s1
    using that a unfolding creates_prefixes_def by (metis option.distinct(1))
  have c: "creates_prefixes (butlast p) (fs s) (fs (state_of (os_makedirs (butlast p) s)))"
    by (rule os_makedirs_creates)
  show False
  proof (cases "p \<noteq> [] \<and> \<not> os_path_exists (fs s) (butlast p)")
    case False
    then have "os_makedirs p s = os_mkdir p s" by (subst os_makedirs.simps) auto
    with assms a show False by (auto dest: os_mkdir_Inr)
  next
    case True
    then obtain s1 where "os_mkdir p s1 = Inr s'" "s1 = state_of (os_makedirs (butlast p) s)"
      using assms by (subst (asm) os_makedirs.simps)
        (auto split: sum.splits prod.splits if_splits)
    with k[of s1] c show False by (auto dest: os_mkdir_Inr)
  qed
qed

lemma mkdir_p_out: "out (state_of (mkdir_p p s)) = out s @ [''CREATE: '' @ render p]"
  using os_makedirs_out[of p "py_print (''CREATE: '' @ render p) s"]
  by (auto simp: mkdir_p_def split: sum.splits prod.splits exn.splits if_splits)

lemma mkdir_p_creates: "creates_prefixes p (fs s) (fs (state_of (mkdir_p p s)))"
  using os_makedirs_creates[of p "py_print (''CREATE: '' @ render p) s"]
  by (auto simp: mkdir_p_def split: sum.splits prod.splits exn.splits if_splits)

lemma all_wf_print [simp]: "all_wf (py_print l s) = all_wf s"
  by (simp add: all_wf_def)

lemma mkdir_p_wf: "all_wf s \<Longrightarrow> all_wf (state_of (mkdir_p p s))"
  using os_makedirs_wf[of "py_print (''CREATE: '' @ render p) s" p]
  by (auto simp: mkdir_p_def split: sum.splits prod.splits exn.splits if_splits)

lemma mkdir_p_exists:
  assumes "wf_fs (fs s)" "os_path_exists (fs s) p"
  shows "mkdir_p p s = Inr (py_print (''CREATE: '' @ render p) s)"
  using os_makedirs_exists[of "py_print (''CREATE: '' @ render p) s" p] assms
  by (simp add: mkdir_p_def)

lemma mkdir_p_Inr_exists:
  assumes "mkdir_p p s = Inr s'"
  shows "os_path_exists (fs s') p"
  using assms
  by (auto simp: mkdir_p_def exists_iff dest: os_makedirs_Inr os_makedirs_EEXIST
      split: sum.splits prod.splits exn.splits if_splits)

lemma mkdir_p_Inr_created:
  assumes "mkdir_p p s = Inr s'" "\<not> os_path_exists (fs s) p"
  shows "stat (fs s') p = Some (Dir True)"
proof -
  let ?s0 = "py_print (''CREATE: '' @ render p) s"
  show ?thesis
  proof (cases "os_makedirs p ?s0")
    case (Inr s1)
    with assms have "s' = s1" by (simp add: mkdir_p_def)
    with os_makedirs_Inr[OF Inr] show ?thesis by simp
  next
    case (Inl x)
    with assms have x: "x = (OSError EEXIST, s')"
      by (cases x) (auto simp: mkdir_p_def split: exn.splits if_splits)
    from os_makedirs_EEXIST Inl x have e: "os_path_exists (fs s') p" by blast
    have "creates_prefixes p (fs ?s0) (fs (state_of (os_makedirs p ?s0)))"
      by (rule os_makedirs_creates)
    with Inl x have "stat (fs s') p = stat (fs s) p \<or> stat (fs s') p = Some (Dir True)"
      by (auto simp: creates_prefixes_def)
    with e assms(2) show ?thesis by (auto simp: exists_iff)
  qed
qed

subsection \<open>write, copyfile\<close>

lemma write_file_Inl: "write_file dst b s = Inl (e, s') \<Longrightarrow> s' = s"
  by (auto simp: write_file_def split: if_splits option.splits entry.splits)

lemma write_file_Inr:
  "write_file dst b s = Inr s' \<Longrightarrow>
     dst \<noteq> [] \<and> os_path_isdir (fs s) (butlast dst) \<and> \<not> os_path_isdir (fs s) dst \<and>
     s' = commit (AList.update dst (File b) (fs s)) (commit (AList.update dst (File []) (fs s)) s)"
  by (auto simp: write_file_def isdir_iff split: if_splits option.splits entry.splits)

lemma shutil_copyfile_Inl: "shutil_copyfile src dst s = Inl (e, s') \<Longrightarrow> s' = s"
  by (auto simp: shutil_copyfile_def dest: write_file_Inl
           split: if_splits option.splits entry.splits)

lemma shutil_copyfile_Inr:
  "shutil_copyfile src dst s = Inr s' \<Longrightarrow>
     (\<exists>b. stat (fs s) src = Some (File b) \<and> write_file dst b s = Inr s')"
  by (auto simp: shutil_copyfile_def split: if_splits option.splits entry.splits)

lemma shutil_copyfile_touches:
  "touches_only dst (fs s) (fs (state_of (shutil_copyfile src dst s)))"
proof (cases "shutil_copyfile src dst s")
  case (Inl x)
  then show ?thesis by (cases x) (auto dest: shutil_copyfile_Inl simp: touches_only_refl)
next
  case (Inr s')
  then show ?thesis
    by (auto dest!: shutil_copyfile_Inr write_file_Inr simp: touches_only_def stat_update
        split: if_splits)
qed

lemma shutil_copyfile_out: "out (state_of (shutil_copyfile src dst s)) = out s"
proof (cases "shutil_copyfile src dst s")
  case (Inl x)
  then show ?thesis by (cases x) (auto dest: shutil_copyfile_Inl)
next
  case (Inr s')
  then show ?thesis by (auto dest!: shutil_copyfile_Inr write_file_Inr)
qed

lemma write_file_wf_fs:
  assumes "write_file dst b s = Inr s'" "wf_fs (fs s)"
  shows "wf_fs (AList.update dst (File c) (fs s))"
  using write_file_Inr[OF assms(1)] assms(2) by (intro wf_fs_update) auto

lemma shutil_copyfile_wf: "all_wf s \<Longrightarrow> all_wf (state_of (shutil_copyfile src dst s))"
proof (cases "shutil_copyfile src dst s")
  case (Inl x)
  assume "all_wf s" with Inl show ?thesis by (cases x) (auto dest: shutil_copyfile_Inl)
next
  case (Inr s')
  assume w: "all_wf s"
  from shutil_copyfile_Inr[OF Inr] obtain b where b: "write_file dst b s = Inr s'" by blast
  have "wf_fs (AList.update dst (File c) (fs s))" for c
    using write_file_wf_fs[OF b] w by (simp add: all_wf_def)
  then show ?thesis using write_file_Inr[OF b] w Inr by (simp add: all_wf_commit)
qed

lemma shutil_copyfile_wf_fs:
  "wf_fs (fs s) \<Longrightarrow> wf_fs (fs (state_of (shutil_copyfile src dst s)))"
proof (cases "shutil_copyfile src dst s")
  case (Inl x)
  assume "wf_fs (fs s)" with Inl show ?thesis by (cases x) (auto dest: shutil_copyfile_Inl)
next
  case (Inr s')
  assume w: "wf_fs (fs s)"
  from shutil_copyfile_Inr[OF Inr] obtain b where b: "write_file dst b s = Inr s'" by blast
  show ?thesis using write_file_wf_fs[OF b w] write_file_Inr[OF b] Inr by simp
qed

lemma os_mkdir_wf_fs: "wf_fs (fs s) \<Longrightarrow> wf_fs (fs (state_of (os_mkdir p s)))"
proof (cases "os_mkdir p s")
  case (Inl x)
  assume "wf_fs (fs s)" with Inl show ?thesis by (cases x) (auto dest: os_mkdir_Inl)
next
  case (Inr s')
  assume w: "wf_fs (fs s)"
  from os_mkdir_Inr[OF Inr] have p: "p \<noteq> []" "os_path_isdir (fs s) (butlast p)"
    and s': "s' = commit (AList.update p (Dir True) (fs s)) s" by (auto simp: isdir_iff)
  have "wf_fs (AList.update p (Dir True) (fs s))"
    using w p by (intro wf_fs_update) auto
  then show ?thesis using Inr s' by simp
qed

lemma os_makedirs_wf_fs: "wf_fs (fs s) \<Longrightarrow> wf_fs (fs (state_of (os_makedirs p s)))"
  using os_makedirs_rel[where R = "\<lambda>s s'. wf_fs (fs s) \<longrightarrow> wf_fs (fs s')" and p = p and s = s]
  by (auto simp: os_mkdir_wf_fs)

lemma mkdir_p_wf_fs: "wf_fs (fs s) \<Longrightarrow> wf_fs (fs (state_of (mkdir_p p s)))"
  using os_makedirs_wf_fs[of "py_print (''CREATE: '' @ render p) s" p]
  by (auto simp: mkdir_p_def split: sum.splits prod.splits exn.splits if_splits)

subsection \<open>Loops\<close>

lemma and_then_rel:
  assumes trans: "\<And>a b c. R a b \<Longrightarrow> R b c \<Longrightarrow> R a c"
    and "R s (state_of r)" and "\<And>s1. r = Inr s1 \<Longrightarrow> R s1 (state_of (k s1))"
  shows "R s (state_of (and_then r k))"
  using assms by (cases r) (auto simp: and_then_def)

lemma for_each_rel:
  assumes refl: "\<And>s. R s s" and trans: "\<And>a b c. R a b \<Longrightarrow> R b c \<Longrightarrow> R a c"
    and body: "\<And>x s. x \<in> set xs \<Longrightarrow> R s (state_of (body x s))"
  shows "R s (state_of (for_each body xs s))"
  using body
proof (induction xs arbitrary: s)
  case Nil then show ?case by (simp add: refl)
next
  case (Cons x xs)
  show ?case
  proof (cases "body x s")
    case (Inl e)
    then show ?thesis using Cons.prems[of x s] by (simp add: and_then_def)
  next
    case (Inr s1)
    have "R s s1" using Cons.prems[of x s] Inr by simp
    moreover have "R s1 (state_of (for_each body xs s1))" using Cons by simp
    ultimately show ?thesis using Inr trans by (auto simp: and_then_def)
  qed
qed

lemma for_each_opt_rel:
  assumes refl: "\<And>s. R s s" and trans: "\<And>a b c. R a b \<Longrightarrow> R b c \<Longrightarrow> R a c"
    and body: "\<And>x s r. x \<in> set xs \<Longrightarrow> body x s = Some r \<Longrightarrow> R s (state_of r)"
  shows "for_each_opt body xs s = Some r \<Longrightarrow> R s (state_of r)"
  using body
proof (induction xs arbitrary: s)
  case Nil then show ?case by (auto simp: refl)
next
  case (Cons x xs)
  from Cons.prems(1) obtain r1 where r1: "body x s = Some r1"
    by (auto simp: and_then_opt_def split: option.splits)
  have a: "R s (state_of r1)" using Cons.prems(2)[OF _ r1] by simp
  show ?case
  proof (cases r1)
    case (Inl e)
    then show ?thesis using Cons.prems(1) r1 a by (simp add: and_then_opt_def)
  next
    case (Inr s1)
    then have "for_each_opt body xs s1 = Some r" using Cons.prems(1) r1
      by (simp add: and_then_opt_def)
    then have "R s1 (state_of r)"
      by (rule Cons.IH) (use Cons.prems(2) in auto)
    then show ?thesis using a Inr trans by auto
  qed
qed

subsection \<open>copytree\<close>

lemma copytree_rel:
  assumes refl: "\<And>s. R s s" and trans: "\<And>a b c. R a b \<Longrightarrow> R b c \<Longrightarrow> R a c"
    and pr: "\<And>l s. R s (py_print l s)"
  shows "copytree n src dst s = Some r \<Longrightarrow>
     (\<And>q s. prefix dst q \<Longrightarrow> R s (state_of (mkdir_p q s))) \<Longrightarrow>
     (\<And>p q s. prefix dst q \<Longrightarrow> R s (state_of (shutil_copyfile p q s))) \<Longrightarrow>
     R s (state_of r)"
proof (induction n arbitrary: src dst s r)
  case 0 then show ?case by simp
next
  case (Suc n)
  note mk = Suc.prems(2) and cp = Suc.prems(3)
  show ?case
  proof (cases "os_path_isdir (fs s) src")
    case False
    then have "r = shutil_copyfile src dst (py_print (''COPY: '' @ render dst) s)"
      using Suc.prems(1) by simp
    then show ?thesis using cp[of dst] pr trans by blast
  next
    case True
    define r1 where "r1 = (if \<not> os_path_exists (fs s) dst then mkdir_p dst s else Inr s)"
    have a: "R s (state_of r1)" using mk[of dst s] refl by (simp add: r1_def)
    show ?thesis
    proof (cases r1)
      case (Inl e)
      then have "r = Inl e" using Suc.prems(1) True by (simp add: r1_def)
      then show ?thesis using a Inl by simp
    next
      case (Inr s1)
      show ?thesis
      proof (cases "os_listdir (fs s1) src")
        case (Inl e)
        then have "r = Inl (OSError e, s1)" using Suc.prems(1) True Inr by (simp add: r1_def)
        then show ?thesis using a Inr by simp
      next
        case names: (Inr names)
        have l: "for_each_opt (\<lambda>name. copytree n (src @ [name]) (dst @ [name])) names s1 = Some r"
          using Suc.prems(1) True Inr names by (simp add: r1_def)
        have "R s1 (state_of r)"
        proof (rule for_each_opt_rel[where R = R, OF refl trans _ l])
          fix x s' r' assume c: "copytree n (src @ [x]) (dst @ [x]) s' = Some r'"
          have pre: "prefix dst q" if "prefix (dst @ [x]) q" for q
            using that by (meson append_prefixD)
          show "R s' (state_of r')"
            by (rule Suc.IH[OF c]) (auto intro: mk cp pre)
        qed
        then show ?thesis using a Inr trans by auto
      qed
    qed
  qed
qed

lemma copytree_touches:
  assumes "copytree n src dst s = Some r"
  shows "touches_only dst (fs s) (fs (state_of r))"
  by (rule copytree_rel[where R = "\<lambda>s s'. touches_only dst (fs s) (fs s')", OF _ _ _ assms])
     (auto intro: touches_only_refl touches_only_trans
          touches_only_mono[OF creates_prefixes_touches[OF mkdir_p_creates]]
          touches_only_mono[OF shutil_copyfile_touches])

lemma copytree_wf_fs:
  assumes "copytree n src dst s = Some r" "wf_fs (fs s)"
  shows "wf_fs (fs (state_of r))"
  using copytree_rel[where R = "\<lambda>s s'. wf_fs (fs s) \<longrightarrow> wf_fs (fs s')", OF _ _ _ assms(1)] assms(2)
  by (auto simp: mkdir_p_wf_fs shutil_copyfile_wf_fs)

lemma copytree_all_wf:
  assumes "copytree n src dst s = Some r" "all_wf s"
  shows "all_wf (state_of r)"
  using copytree_rel[where R = "\<lambda>s s'. all_wf s \<longrightarrow> all_wf s'", OF _ _ _ assms(1)] assms(2)
  by (auto simp: mkdir_p_wf shutil_copyfile_wf)

lemma os_listdir_Inr:
  assumes "os_listdir f p = Inr ns"
  shows "distinct ns" and "n \<in> set ns \<longleftrightarrow> stat f (p @ [n]) \<noteq> None"
proof -
  from assms have ns: "ns = remdups (map (\<lambda>(q, e). last q)
                 (filter (\<lambda>(q, e). q \<noteq> [] \<and> butlast q = p) f))"
    by (auto simp: os_listdir_def split: option.splits entry.splits)
  then show "distinct ns" by simp
  have "n \<in> set ns \<longleftrightarrow> (\<exists>q e. (q, e) \<in> set f \<and> q \<noteq> [] \<and> butlast q = p \<and> last q = n)"
    unfolding ns by force
  also have "\<dots> \<longleftrightarrow> (\<exists>e. (p @ [n], e) \<in> set f)"
    by (metis append_butlast_last_id butlast_snoc last_snoc snoc_eq_iff_butlast)
  also have "\<dots> \<longleftrightarrow> map_of f (p @ [n]) \<noteq> None"
    by (metis map_of_SomeD weak_map_of_SomeI not_Some_eq)
  finally show "n \<in> set ns \<longleftrightarrow> stat f (p @ [n]) \<noteq> None" by (simp add: stat_def)
qed

lemma prefix_incomparable_append:
  assumes "\<not> prefix src dst" "\<not> prefix dst src" shows "\<not> prefix dst (src @ r)"
  using assms by (metis prefix_append prefixI)

lemma incomparable_child:
  assumes "\<not> prefix src dst" "\<not> prefix dst src"
  shows "\<not> prefix (src @ [x]) (dst @ [x])" "\<not> prefix (dst @ [x]) (src @ [x])"
  using assms by (metis append_prefixD prefix_snoc prefix_order.refl prefixI)+

lemma touches_only_keeps:
  assumes "touches_only d f g" "stat f q = Some e" "\<not> prefix d q"
  shows "stat g q = Some e"
  using assms unfolding touches_only_def by (metis option.distinct(1))

lemma copy_loop_keeps:
  assumes "for_each_opt (\<lambda>name. copytree n (src @ [name]) (dst @ [name])) xs s = Some r"
    and "stat (fs s) q = Some e" and "\<forall>y \<in> set xs. \<not> prefix (dst @ [y]) q"
  shows "stat (fs (state_of r)) q = Some e"
proof -
  have "stat (fs s) q = Some e \<longrightarrow> stat (fs (state_of r)) q = Some e"
  proof (rule for_each_opt_rel[where R = "\<lambda>s s'. stat (fs s) q = Some e \<longrightarrow> stat (fs s') q = Some e",
          OF _ _ _ assms(1)])
    fix x s' r' assume x: "x \<in> set xs" and c: "copytree n (src @ [x]) (dst @ [x]) s' = Some r'"
    show "stat (fs s') q = Some e \<longrightarrow> stat (fs (state_of r')) q = Some e"
      using touches_only_keeps[OF copytree_touches[OF c]] assms(3) x by blast
  qed auto
  with assms(2) show ?thesis by simp
qed

lemma copy_loop_files:
  assumes IH: "\<And>src dst s s' rel b.
      copytree n src dst s = Some (Inr s') \<Longrightarrow> wf_fs (fs s) \<Longrightarrow>
      \<not> prefix src dst \<Longrightarrow> \<not> prefix dst src \<Longrightarrow>
      stat (fs s) (src @ rel) = Some (File b) \<Longrightarrow> stat (fs s') (dst @ rel) = Some (File b)"
    and inc: "\<not> prefix src dst" "\<not> prefix dst src"
  shows "for_each_opt (\<lambda>name. copytree n (src @ [name]) (dst @ [name])) xs s = Some (Inr s') \<Longrightarrow>
     distinct xs \<Longrightarrow> wf_fs (fs s) \<Longrightarrow> name \<in> set xs \<Longrightarrow>
     stat (fs s) (src @ name # rel) = Some (File b) \<Longrightarrow>
     stat (fs s') (dst @ name # rel) = Some (File b)"
proof (induction xs arbitrary: s)
  case Nil then show ?case by simp
next
  case (Cons x xs)
  from Cons.prems(1) obtain s1 where
    c: "copytree n (src @ [x]) (dst @ [x]) s = Some (Inr s1)"
    and l: "for_each_opt (\<lambda>name. copytree n (src @ [name]) (dst @ [name])) xs s1 = Some (Inr s')"
    by (auto simp: and_then_opt_def split: option.splits sum.splits)
  have wf1: "wf_fs (fs s1)" using copytree_wf_fs[OF c Cons.prems(3)] by simp
  have t: "touches_only (dst @ [x]) (fs s) (fs s1)" using copytree_touches[OF c] by simp
  show ?case
  proof (cases "name = x")
    case True
    have "stat (fs s1) ((dst @ [x]) @ rel) = Some (File b)"
      by (rule IH[OF c Cons.prems(3) incomparable_child[OF inc]])
         (use Cons.prems(5) True in simp)
    then have "stat (fs s1) (dst @ name # rel) = Some (File b)" using True by simp
    moreover have "\<forall>y \<in> set xs. \<not> prefix (dst @ [y]) (dst @ name # rel)"
      using Cons.prems(2) True by auto
    ultimately show ?thesis using copy_loop_keeps[OF l] by fastforce
  next
    case False
    have "\<not> prefix (dst @ [x]) (src @ name # rel)"
      using prefix_incomparable_append[OF inc] by (meson append_prefixD)
    then have "stat (fs s1) (src @ name # rel) = Some (File b)"
      using touches_only_keeps[OF t Cons.prems(5)] by simp
    then show ?thesis using Cons.IH[OF l _ wf1] Cons.prems(2,4) False by simp
  qed
qed

lemma copytree_files:
  "copytree n src dst s = Some (Inr s') \<Longrightarrow> wf_fs (fs s) \<Longrightarrow>
   \<not> prefix src dst \<Longrightarrow> \<not> prefix dst src \<Longrightarrow>
   stat (fs s) (src @ rel) = Some (File b) \<Longrightarrow> stat (fs s') (dst @ rel) = Some (File b)"
proof (induction n arbitrary: src dst s s' rel b)
  case 0 then show ?case by simp
next
  case (Suc n)
  note inc = Suc.prems(3,4)
  show ?case
  proof (cases "os_path_isdir (fs s) src")
    case False
    have "rel = []"
    proof (rule ccontr)
      assume "rel \<noteq> []"
      from wf_fs_prefix[OF Suc.prems(2) _ this] Suc.prems(5) False show False by simp
    qed
    moreover have "shutil_copyfile src dst (py_print (''COPY: '' @ render dst) s) = Inr s'"
      using Suc.prems(1) False by simp
    ultimately show ?thesis using Suc.prems(5)
      by (auto dest!: shutil_copyfile_Inr write_file_Inr simp: stat_update)
  next
    case True
    then obtain name rel' where rel: "rel = name # rel'"
      using Suc.prems(5) by (cases rel) (auto simp: isdir_iff)
    define r1 where "r1 = (if \<not> os_path_exists (fs s) dst then mkdir_p dst s else Inr s)"
    from Suc.prems(1) True obtain s1 names where s1: "r1 = Inr s1"
      and names: "os_listdir (fs s1) src = Inr names"
      and l: "for_each_opt (\<lambda>name. copytree n (src @ [name]) (dst @ [name])) names s1 = Some (Inr s')"
      by (auto simp: r1_def split: sum.splits if_splits)
    have cr: "creates_prefixes dst (fs s) (fs s1)"
      using mkdir_p_creates[of dst s] s1 by (auto simp: r1_def creates_prefixes_refl split: if_splits)
    have wf1: "wf_fs (fs s1)"
      using mkdir_p_wf_fs[OF Suc.prems(2), of dst] s1 Suc.prems(2) by (auto simp: r1_def split: if_splits)
    have src1: "stat (fs s1) (src @ name # rel') = Some (File b)"
      using cr Suc.prems(5) rel unfolding creates_prefixes_def by (metis option.distinct(1))
    have "stat (fs s1) ((src @ [name]) @ rel') \<noteq> None" using src1 by simp
    then have "stat (fs s1) (src @ [name]) \<noteq> None"
      using wf_fs_prefix[OF wf1, of "src @ [name]" rel'] by (cases "rel' = []") (auto simp: isdir_iff)
    then have mem: "name \<in> set names" using os_listdir_Inr(2)[OF names] by simp
    show ?thesis unfolding rel
      by (rule copy_loop_files[OF Suc.IH inc l os_listdir_Inr(1)[OF names] wf1 mem src1])
  qed
qed

subsection \<open>rmtree\<close>

lemma stat_rmtree:
  "p \<noteq> [] \<Longrightarrow> stat (filter (\<lambda>(q, e). \<not> prefix p q) f) q = (if prefix p q then None else stat f q)"
proof (cases "q = []")
  case True
  assume "p \<noteq> []" with True show ?thesis by simp
next
  case False
  assume "p \<noteq> []"
  show ?thesis
  proof (cases "prefix p q")
    case True
    have "q \<notin> fst ` set (filter (\<lambda>(q, e). \<not> prefix p q) f)" using True by auto
    then have "map_of (filter (\<lambda>(q, e). \<not> prefix p q) f) q = None"
      by (simp only: map_of_eq_None_iff not_False_eq_True)
    then show ?thesis using True False by (simp add: stat_def)
  next
    case np: False
    have "map_of (filter (\<lambda>(q, e). \<not> prefix p q) f) q = map_of f q"
    proof (cases "map_of f q")
      case None
      then have "q \<notin> fst ` set f" by (simp add: map_of_eq_None_iff)
      then have "q \<notin> fst ` set (filter (\<lambda>(q, e). \<not> prefix p q) f)" by auto
      then have "map_of (filter (\<lambda>(q, e). \<not> prefix p q) f) q = None"
        by (simp only: map_of_eq_None_iff not_False_eq_True)
      then show ?thesis using None by simp
    next
      case (Some e)
      then show ?thesis using np by (simp add: map_of_filter_in)
    qed
    then show ?thesis using np False by (simp add: stat_def)
  qed
qed

lemma shutil_rmtree_Inl: "shutil_rmtree p s = Inl (e, s') \<Longrightarrow> s' = s"
  by (auto simp: shutil_rmtree_def split: option.splits entry.splits)

lemma shutil_rmtree_Inr:
  "shutil_rmtree p s = Inr s' \<Longrightarrow>
     os_path_isdir (fs s) p \<and> s' = commit (filter (\<lambda>(q, e). \<not> prefix p q) (fs s)) s"
  by (auto simp: shutil_rmtree_def isdir_iff split: option.splits entry.splits)

lemma touches_only_outside:
  assumes "touches_only d f g" "\<not> prefix d q" "\<not> prefix q d" shows "stat g q = stat f q"
  using assms unfolding touches_only_def by (metis strict_prefixE)

lemma shutil_rmtree_touches:
  assumes "p \<noteq> []" shows "touches_only p (fs s) (fs (state_of (shutil_rmtree p s)))"
proof (cases "shutil_rmtree p s")
  case (Inl x)
  then show ?thesis by (cases x) (auto dest: shutil_rmtree_Inl simp: touches_only_refl)
next
  case (Inr s')
  from shutil_rmtree_Inr[OF this] show ?thesis using Inr assms
    by (simp add: touches_only_def stat_rmtree)
qed

lemma shutil_rmtree_wf_fs: "wf_fs (fs s) \<Longrightarrow> wf_fs (fs (state_of (shutil_rmtree p s)))"
proof (cases "shutil_rmtree p s")
  case (Inl x)
  assume "wf_fs (fs s)" with Inl show ?thesis by (cases x) (auto dest: shutil_rmtree_Inl)
next
  case (Inr s')
  assume "wf_fs (fs s)"
  with shutil_rmtree_Inr[OF Inr] show ?thesis using Inr by (simp add: wf_fs_rmtree)
qed

lemma shutil_rmtree_out: "out (state_of (shutil_rmtree p s)) = out s"
proof (cases "shutil_rmtree p s")
  case (Inl x)
  then show ?thesis by (cases x) (auto dest: shutil_rmtree_Inl)
next
  case (Inr s')
  with shutil_rmtree_Inr[OF Inr] show ?thesis by simp
qed

subsection \<open>The paths of the script\<close>

lemma output_path_ne [simp]: "output_path base a \<noteq> []"
  by (simp add: output_path_def)

lemma diverge_prefix [simp]:
  "x \<noteq> y \<Longrightarrow> \<not> prefix (base @ x # xs) (base @ y # ys)"
  by simp

subsection \<open>Clearing and creating the output directory\<close>

lemma clean_output_cleared:
  assumes "wf_fs (fs s)" "clean_output base a s = Inr s1" "prefix (output_path base a) q"
  shows "stat (fs s1) q = None"
proof (cases "os_path_exists (fs s) (output_path base a)")
  case True
  then have "shutil_rmtree (output_path base a) s = Inr s1"
    using assms(2) by (simp add: clean_output_def hasattr_clean_def)
  from shutil_rmtree_Inr[OF this] show ?thesis using assms(3) by (simp add: stat_rmtree)
next
  case False
  then have s1: "s1 = s" using assms(2) by (simp add: clean_output_def)
  from False have n: "stat (fs s) (output_path base a) = None" by (simp add: exists_iff)
  from assms(3) obtain r where q: "q = output_path base a @ r" by (auto simp: prefix_def)
  show ?thesis
  proof (cases "r = []")
    case True with n q s1 show ?thesis by simp
  next
    case False
    from wf_fs_missing_below[OF assms(1) n False] q s1 show ?thesis by simp
  qed
qed

lemma clean_output_touches:
  "touches_only (output_path base a) (fs s) (fs (state_of (clean_output base a s)))"
  using shutil_rmtree_touches[of "output_path base a" s]
  by (simp add: clean_output_def touches_only_refl)

lemma clean_output_wf_fs: "wf_fs (fs s) \<Longrightarrow> wf_fs (fs (state_of (clean_output base a s)))"
  using shutil_rmtree_wf_fs[of s "output_path base a"] by (simp add: clean_output_def)

lemma clean_output_out: "out (state_of (clean_output base a s)) = out s"
  using shutil_rmtree_out[of "output_path base a" s] by (simp add: clean_output_def)

lemma ensure_output_touches:
  "touches_only (output_path base a) (fs s) (fs (state_of (ensure_output base a s)))"
  using creates_prefixes_touches[OF os_makedirs_creates[of "output_path base a" s]]
  by (simp add: ensure_output_def touches_only_refl)

lemma ensure_output_wf_fs: "wf_fs (fs s) \<Longrightarrow> wf_fs (fs (state_of (ensure_output base a s)))"
  using os_makedirs_wf_fs[of s "output_path base a"] by (simp add: ensure_output_def)

lemma ensure_output_out: "out (state_of (ensure_output base a s)) = out s"
  using os_makedirs_out[of "output_path base a" s] by (simp add: ensure_output_def)

lemma prepare_output_touches:
  "touches_only (output_path base a) (fs s) (fs (state_of (prepare_output base a s)))"
  unfolding prepare_output_def
  by (rule and_then_rel[where R = "\<lambda>s s'. touches_only (output_path base a) (fs s) (fs s')"])
     (auto intro: touches_only_trans clean_output_touches ensure_output_touches)

lemma prepare_output_wf_fs:
  "wf_fs (fs s) \<Longrightarrow> wf_fs (fs (state_of (prepare_output base a s)))"
  using and_then_rel[where R = "\<lambda>s s'. wf_fs (fs s) \<longrightarrow> wf_fs (fs s')"
      and r = "clean_output base a s" and k = "ensure_output base a" and s = s]
  by (auto simp: prepare_output_def clean_output_wf_fs ensure_output_wf_fs)

lemma prepare_output_out: "out (state_of (prepare_output base a s)) = out s"
  unfolding prepare_output_def
  by (rule and_then_rel[where R = "\<lambda>s s'. out s' = out s"])
     (auto simp: clean_output_out ensure_output_out)

lemma prepare_output_fresh:
  assumes "wf_fs (fs s)" "build a \<noteq> ''none''" "prepare_output base a s = Inr s0"
  shows "stat (fs s0) (output_path base a) = Some (Dir True)"
    and "strict_prefix (output_path base a) q \<Longrightarrow> stat (fs s0) q = None"
proof -
  from assms(3) obtain s1 where c: "clean_output base a s = Inr s1"
    and e: "ensure_output base a s1 = Inr s0"
    by (auto simp: prepare_output_def and_then_def split: sum.splits)
  have n: "stat (fs s1) q = None" if "prefix (output_path base a) q" for q
    using clean_output_cleared[OF assms(1) c that] .
  then have "\<not> os_path_exists (fs s1) (output_path base a)" by (simp add: exists_iff)
  then have m: "os_makedirs (output_path base a) s1 = Inr s0"
    using e assms(2) by (simp add: ensure_output_def)
  from os_makedirs_Inr[OF m] show "stat (fs s0) (output_path base a) = Some (Dir True)" .
  assume sp: "strict_prefix (output_path base a) q"
  have "creates_prefixes (output_path base a) (fs s1) (fs s0)"
    using os_makedirs_creates[of "output_path base a" s1] m by simp
  then have "stat (fs s0) q = stat (fs s1) q"
    using sp unfolding creates_prefixes_def by (metis prefix_order.less_le_not_le)
  then show "stat (fs s0) q = None" using n sp by (simp add: strict_prefix_def)
qed

lemma and_then_opt_rel:
  assumes trans: "\<And>a b c. R a b \<Longrightarrow> R b c \<Longrightarrow> R a c"
    and r: "\<And>r1. r = Some r1 \<Longrightarrow> R s (state_of r1)"
    and k: "\<And>s1 r2. r = Some (Inr s1) \<Longrightarrow> k s1 = Some r2 \<Longrightarrow> R s1 (state_of r2)"
  shows "and_then_opt r k = Some r' \<Longrightarrow> R s (state_of r')"
proof -
  assume a: "and_then_opt r k = Some r'"
  then obtain r1 where r1: "r = Some r1" by (auto simp: and_then_opt_def split: option.splits)
  show ?thesis
  proof (cases r1)
    case (Inl e)
    then show ?thesis using a r1 r[OF r1] by (simp add: and_then_opt_def)
  next
    case (Inr s1)
    then have "k s1 = Some r'" using a r1 by (simp add: and_then_opt_def)
    from k[OF _ this] r[OF r1] r1 Inr trans show ?thesis by auto
  qed
qed

subsection \<open>The asset phase, step by step\<close>

text \<open>
  A reflexive and transitive relation between states that every creation and every
  file copy at or below the output directory respects is respected by the whole asset
  phase.
\<close>

lemma scaffold_collections_rel:
  assumes refl: "\<And>s. R s s" and trans: "\<And>a b c. R a b \<Longrightarrow> R b c \<Longrightarrow> R a c"
    and mk: "\<And>q s. prefix output q \<Longrightarrow> R s (state_of (mkdir_p q s))"
  shows "R s (state_of (scaffold_collections output s))"
proof -
  have one: "R s (state_of (scaffold_collection output c s))" for c s
    unfolding scaffold_collection_def
    by (auto intro!: for_each_rel[where R = R] mk intro: refl trans)
  show ?thesis
    unfolding scaffold_collections_def
    by (auto split: sum.splits intro!: for_each_rel[where R = R] one intro: refl trans)
qed

lemma copytree_rel_under:
  assumes refl: "\<And>s. R s s" and trans: "\<And>a b c. R a b \<Longrightarrow> R b c \<Longrightarrow> R a c"
    and pr: "\<And>l s. R s (py_print l s)"
    and mk: "\<And>q s. prefix outp q \<Longrightarrow> R s (state_of (mkdir_p q s))"
    and cp: "\<And>p q s. prefix outp q \<Longrightarrow> R s (state_of (shutil_copyfile p q s))"
    and c: "copytree n src dst s = Some r" and d: "prefix outp dst"
  shows "R s (state_of r)"
  by (rule copytree_rel[where R = R, OF refl trans pr c])
     (use d in \<open>auto intro: mk cp prefix_order.trans\<close>)

lemma build_full_rel:
  assumes refl: "\<And>s. R s s" and trans: "\<And>a b c. R a b \<Longrightarrow> R b c \<Longrightarrow> R a c"
    and pr: "\<And>l s. R s (py_print l s)"
    and mk: "\<And>q s. prefix (output_path base a) q \<Longrightarrow> R s (state_of (mkdir_p q s))"
    and cp: "\<And>p q s. prefix (output_path base a) q \<Longrightarrow> R s (state_of (shutil_copyfile p q s))"
    and b: "build_full n base a s = Some r"
  shows "R s (state_of r)"
proof -
  have ct: "R s (state_of r)"
    if "copytree n src dst s = Some r" "prefix (output_path base a) dst" for src dst s r
    using refl trans pr mk cp that by (rule copytree_rel_under[where R = R])
  show ?thesis
    using b unfolding build_full_def
  proof (rule and_then_opt_rel[where R = R, rotated 3], goal_cases)
    case (1 a b c) then show ?case by (rule trans)
  next
    case (2 r1) then show ?case by (rule ct) simp
  next
    case (3 s1 r2)
    from 3(2) show ?case
    proof (rule and_then_opt_rel[where R = R, rotated 3], goal_cases)
      case (1 a b c) then show ?case by (rule trans)
    next
      case (2 r1) then show ?case
        by (auto split: option.splits simp: refl intro: ct)
    next
      case (3 s2 r3)
      then have r3: "r3 = and_then (mkdir_p (output_path base a @ [''meta'', ''mamelist'']) s2)
               (scaffold_collections (output_path base a))" by simp
      show ?case unfolding r3
        by (rule and_then_rel[where R = R])
           (auto intro: trans mk scaffold_collections_rel[where R = R] refl)
    qed
  qed
qed

lemma build_layout_rel:
  assumes refl: "\<And>s. R s s" and trans: "\<And>a b c. R a b \<Longrightarrow> R b c \<Longrightarrow> R a c"
    and pr: "\<And>l s. R s (py_print l s)"
    and mk: "\<And>q s. prefix (output_path base a) q \<Longrightarrow> R s (state_of (mkdir_p q s))"
    and md: "\<And>q s. prefix (output_path base a) q \<Longrightarrow> R s (state_of (os_makedirs q s))"
    and cp: "\<And>p q s. prefix (output_path base a) q \<Longrightarrow> R s (state_of (shutil_copyfile p q s))"
    and b: "build_layout n base a s = Some r"
  shows "R s (state_of r)"
proof (cases "os_path base a")
  case None
  with b show ?thesis by (auto simp: build_layout_def refl)
next
  case (Some osp)
  let ?dest = "output_path base a @ [''layouts'']"
  have ct: "R s1 (state_of r1)"
    if "(if c then copytree n p ?dest s1 else Some (Inr s1)) = Some r1" for c p s1 r1
  proof (cases c)
    case True
    with that have "copytree n p ?dest s1 = Some r1" by simp
    moreover have "prefix (output_path base a) ?dest" by simp
    ultimately show ?thesis
      using refl trans pr mk cp by (rule copytree_rel_under[where R = R, rotated 5])
  next
    case False
    with that show ?thesis by (auto simp: refl)
  qed
  define r0 where "r0 = (if \<not> os_path_exists (fs s) ?dest then os_makedirs ?dest s else Inr s)"
  have R0: "R s (state_of r0)"
    by (simp add: r0_def refl md)
  from b Some have eq:
    "and_then_opt (Some r0) (\<lambda>s1.
       and_then_opt
         (if os_path_exists (fs s1) (common_path base @ [''layouts''])
          then copytree n (common_path base @ [''layouts'']) ?dest s1 else Some (Inr s1))
         (\<lambda>s2. if os_path_exists (fs s2) (osp @ [''layouts''])
               then copytree n (osp @ [''layouts'']) ?dest s2 else Some (Inr s2))) = Some r"
    by (simp add: build_layout_def r0_def)
  show ?thesis
  proof (rule and_then_opt_rel[where R = R, OF _ _ _ eq])
    fix r1 assume "Some r0 = Some r1"
    with R0 show "R s (state_of r1)" by simp
  next
    fix s1 r2
    assume "and_then_opt
         (if os_path_exists (fs s1) (common_path base @ [''layouts''])
          then copytree n (common_path base @ [''layouts'']) ?dest s1 else Some (Inr s1))
         (\<lambda>s2. if os_path_exists (fs s2) (osp @ [''layouts''])
               then copytree n (osp @ [''layouts'']) ?dest s2 else Some (Inr s2)) = Some r2"
    then show "R s1 (state_of r2)"
      by (rule and_then_opt_rel[where R = R, rotated 3]) (auto intro: trans ct)
  qed (rule trans)
qed

lemma copy_assets_rel:
  assumes refl: "\<And>s. R s s" and trans: "\<And>a b c. R a b \<Longrightarrow> R b c \<Longrightarrow> R a c"
    and pr: "\<And>l s. R s (py_print l s)"
    and mk: "\<And>q s. prefix (output_path base a) q \<Longrightarrow> R s (state_of (mkdir_p q s))"
    and md: "\<And>q s. prefix (output_path base a) q \<Longrightarrow> R s (state_of (os_makedirs q s))"
    and cp: "\<And>p q s. prefix (output_path base a) q \<Longrightarrow> R s (state_of (shutil_copyfile p q s))"
    and c: "copy_assets n base a s = Some r"
  shows "R s (state_of r)"
proof -
  consider "build a = ''full''" "build_full n base a s = Some r"
    | "build a = ''layout''" "build_layout n base a s = Some r"
    | "r = Inr s"
    using c by (auto simp: copy_assets_def split: if_splits)
  then show ?thesis
  proof cases
    case 1 then show ?thesis
      by (intro build_full_rel[where R = R, OF refl trans pr mk cp])
  next
    case 2 then show ?thesis
      by (intro build_layout_rel[where R = R, OF refl trans pr mk md cp])
  next
    case 3 then show ?thesis by (simp add: refl)
  qed
qed

lemma mkdir_p_touches:
  "prefix d p \<Longrightarrow> touches_only d (fs s) (fs (state_of (mkdir_p p s)))"
  by (rule touches_only_mono[OF creates_prefixes_touches[OF mkdir_p_creates]])

lemma os_makedirs_touches:
  "prefix d p \<Longrightarrow> touches_only d (fs s) (fs (state_of (os_makedirs p s)))"
  by (rule touches_only_mono[OF creates_prefixes_touches[OF os_makedirs_creates]])

lemma copy_assets_touches:
  assumes "copy_assets n base a s = Some r"
  shows "touches_only (output_path base a) (fs s) (fs (state_of r))"
proof (rule copy_assets_rel[where R = "\<lambda>s s'. touches_only (output_path base a) (fs s) (fs s')",
        OF _ _ _ _ _ _ assms])
  fix p q s assume "prefix (output_path base a) q"
  then show "touches_only (output_path base a) (fs s) (fs (state_of (shutil_copyfile p q s)))"
    by (rule touches_only_mono[OF shutil_copyfile_touches])
qed (simp_all add: touches_only_refl mkdir_p_touches os_makedirs_touches,
     erule (1) touches_only_trans)

lemma copy_assets_wf_fs:
  assumes "copy_assets n base a s = Some r" "wf_fs (fs s)"
  shows "wf_fs (fs (state_of r))"
proof -
  have "wf_fs (fs s) \<longrightarrow> wf_fs (fs (state_of r))"
    by (rule copy_assets_rel[where R = "\<lambda>s s'. wf_fs (fs s) \<longrightarrow> wf_fs (fs s')",
          OF _ _ _ _ _ _ assms(1)])
       (simp_all add: mkdir_p_wf_fs os_makedirs_wf_fs shutil_copyfile_wf_fs)
  with assms(2) show ?thesis by simp
qed

text \<open>No creation and no file copy turns a directory into something else.\<close>

lemma creates_prefixes_keeps_dir:
  "creates_prefixes p f g \<Longrightarrow> stat f q = Some (Dir w) \<Longrightarrow> stat g q = Some (Dir w)"
  unfolding creates_prefixes_def by (metis option.distinct(1))

lemma shutil_copyfile_keeps_dir:
  assumes "stat (fs s) q = Some (Dir w)"
  shows "stat (fs (state_of (shutil_copyfile p d s))) q = Some (Dir w)"
proof (cases "shutil_copyfile p d s")
  case (Inl x)
  then show ?thesis using assms by (cases x) (auto dest: shutil_copyfile_Inl)
next
  case (Inr s')
  then show ?thesis using assms
    by (auto dest!: shutil_copyfile_Inr write_file_Inr simp: stat_update isdir_iff)
qed

lemma copy_assets_keeps_dir:
  assumes "copy_assets n base a s = Some r" "stat (fs s) q = Some (Dir w)"
  shows "stat (fs (state_of r)) q = Some (Dir w)"
proof -
  have "stat (fs s) q = Some (Dir w) \<longrightarrow> stat (fs (state_of r)) q = Some (Dir w)"
    by (rule copy_assets_rel[where
          R = "\<lambda>s s'. stat (fs s) q = Some (Dir w) \<longrightarrow> stat (fs s') q = Some (Dir w)",
          OF _ _ _ _ _ _ assms(1)])
       (simp_all add: creates_prefixes_keeps_dir[OF mkdir_p_creates]
          creates_prefixes_keeps_dir[OF os_makedirs_creates] shutil_copyfile_keeps_dir)
  with assms(2) show ?thesis by simp
qed

subsection \<open>The copy returns when the recursion bound exceeds the depth of the source\<close>

lemma shallow_bound:
  assumes "shallow f p n" "stat f (p @ rel) \<noteq> None" shows "length rel < n"
proof (cases "p @ rel = []")
  case True with assms(1) show ?thesis by (simp add: shallow_def)
next
  case False
  with assms(2) obtain e where "map_of f (p @ rel) = Some e" by (auto simp: stat_def)
  then have "(p @ rel, e) \<in> set f" by (rule map_of_SomeD)
  with assms(1) have "length (p @ rel) < length p + n" by (auto simp: shallow_def)
  then show ?thesis by simp
qed

lemma source_untouched:
  assumes "touches_only d f g" "\<not> prefix src d" "\<not> prefix d src"
  shows "stat g (src @ rel) = stat f (src @ rel)"
proof (rule touches_only_outside[OF assms(1)])
  show "\<not> prefix d (src @ rel)" using assms(2,3) by (rule prefix_incomparable_append)
  show "\<not> prefix (src @ rel) d" using assms(2) by (meson append_prefixD)
qed

lemma copy_loop_returns:
  assumes IH: "\<And>src dst s. \<not> prefix src dst \<Longrightarrow> \<not> prefix dst src \<Longrightarrow> 0 < m \<Longrightarrow>
      (\<forall>rel. stat (fs s) (src @ rel) \<noteq> None \<longrightarrow> length rel < m) \<Longrightarrow>
      \<exists>r. copytree m src dst s = Some r"
    and inc: "\<not> prefix src dst" "\<not> prefix dst src"
  shows "(xs \<noteq> [] \<longrightarrow> 0 < m) \<Longrightarrow>
     (\<forall>x rel. stat (fs s) (src @ x # rel) \<noteq> None \<longrightarrow> length rel < m) \<Longrightarrow>
     \<exists>r. for_each_opt (\<lambda>name. copytree m (src @ [name]) (dst @ [name])) xs s = Some r"
proof (induction xs arbitrary: s)
  case Nil then show ?case by simp
next
  case (Cons x xs)
  have m: "0 < m" using Cons.prems(1) by simp
  have "\<exists>r. copytree m (src @ [x]) (dst @ [x]) s = Some r"
    by (rule IH[OF incomparable_child[OF inc] m]) (use Cons.prems(2) in simp)
  then obtain r1 where r1: "copytree m (src @ [x]) (dst @ [x]) s = Some r1" by blast
  show ?case
  proof (cases r1)
    case (Inl e)
    then show ?thesis using r1 by (simp add: and_then_opt_def)
  next
    case (Inr s1)
    have t: "touches_only (dst @ [x]) (fs s) (fs s1)"
      using copytree_touches[OF r1] Inr by simp
    have i1: "\<not> prefix src (dst @ [x])" using inc by (metis prefix_snoc prefix_order.refl)
    have i2: "\<not> prefix (dst @ [x]) src" using inc(2) by (meson append_prefixD)
    have "stat (fs s1) (src @ y # rel) = stat (fs s) (src @ y # rel)" for y rel
      by (rule source_untouched[OF t i1 i2])
    then have "\<forall>y rel. stat (fs s1) (src @ y # rel) \<noteq> None \<longrightarrow> length rel < m"
      using Cons.prems(2) by simp
    from Cons.IH[OF _ this] m show ?thesis using r1 Inr by (simp add: and_then_opt_def)
  qed
qed

lemma copytree_returns_bounded:
  "\<not> prefix src dst \<Longrightarrow> \<not> prefix dst src \<Longrightarrow> 0 < n \<Longrightarrow>
   (\<forall>rel. stat (fs s) (src @ rel) \<noteq> None \<longrightarrow> length rel < n) \<Longrightarrow>
   \<exists>r. copytree n src dst s = Some r"
proof (induction n arbitrary: src dst s)
  case 0 then show ?case by simp
next
  case (Suc m)
  note inc = Suc.prems(1,2)
  show ?case
  proof (cases "os_path_isdir (fs s) src")
    case False then show ?thesis by simp
  next
    case True
    define r1 where "r1 = (if \<not> os_path_exists (fs s) dst then mkdir_p dst s else Inr s)"
    show ?thesis
    proof (cases r1)
      case (Inl e)
      then show ?thesis using True by (simp add: r1_def)
    next
      case (Inr s1)
      have cr: "touches_only dst (fs s) (fs s1)"
        using creates_prefixes_touches[OF mkdir_p_creates[of dst s]] Inr
        by (auto simp: r1_def touches_only_refl split: if_splits)
      have same: "stat (fs s1) (src @ rel) = stat (fs s) (src @ rel)" for rel
        by (rule source_untouched[OF cr inc])
      show ?thesis
      proof (cases "os_listdir (fs s1) src")
        case (Inl e)
        then show ?thesis using True Inr by (simp add: r1_def)
      next
        case names: (Inr names)
        have b: "\<forall>x rel. stat (fs s1) (src @ x # rel) \<noteq> None \<longrightarrow> length rel < m"
        proof (intro allI impI)
          fix x rel assume "stat (fs s1) (src @ x # rel) \<noteq> None"
          then have "stat (fs s) (src @ x # rel) \<noteq> None" using same by simp
          with Suc.prems(4) have "length (x # rel) < Suc m" by blast
          then show "length rel < m" by simp
        qed
        have m: "names \<noteq> [] \<longrightarrow> 0 < m"
        proof
          assume "names \<noteq> []"
          then obtain x where "x \<in> set names" by (cases names) auto
          then have "stat (fs s1) (src @ [x]) \<noteq> None" using os_listdir_Inr(2)[OF names] by simp
          then have "stat (fs s) (src @ [x]) \<noteq> None" using same by simp
          with Suc.prems(4) have "length [x] < Suc m" by blast
          then show "0 < m" by simp
        qed
        have "\<exists>r. for_each_opt (\<lambda>name. copytree m (src @ [name]) (dst @ [name])) names s1 = Some r"
          by (rule copy_loop_returns[OF Suc.IH inc m b])
        then show ?thesis using True Inr names by (simp add: r1_def)
      qed
    qed
  qed
qed

lemma copytree_returns:
  assumes "\<not> prefix src dst" "\<not> prefix dst src" "shallow (fs s) src n"
  shows "\<exists>r. copytree n src dst s = Some r"
  using assms(3) shallow_bound[OF assms(3)]
  by (intro copytree_returns_bounded[OF assms(1,2)]) (auto simp: shallow_def)

subsection \<open>Facts about the run\<close>

lemma Inr_state_of: "\<not> isl r \<Longrightarrow> r = Inr (state_of r)"
  by (cases r) auto

lemma and_then_opt_return [simp]: "and_then_opt r (\<lambda>s. Some (Inr s)) = r"
  by (auto simp: and_then_opt_def split: option.splits sum.splits)

lemma outside_output:
  assumes "x \<noteq> ''Artifacts''"
  shows "\<not> prefix (output_path base a) (base @ x # xs)"
    and "\<not> prefix (base @ x # xs) (output_path base a)"
    and "\<not> prefix (output_path base a @ ys) (base @ x # xs)"
    and "\<not> prefix (base @ x # xs) (output_path base a @ ys)"
  using assms by (simp_all add: output_path_def)

lemma stat_outside_output:
  assumes "touches_only (output_path base a @ ys) f g" "x \<noteq> ''Artifacts''"
  shows "stat g (base @ x # xs) = stat f (base @ x # xs)"
  by (rule touches_only_outside[OF assms(1)]) (simp_all add: outside_output assms(2))

lemma stat_outside_output':
  assumes "touches_only (output_path base a) f g" "x \<noteq> ''Artifacts''"
  shows "stat g (base @ x # xs) = stat f (base @ x # xs)"
  using stat_outside_output[of base a "[]"] assms by simp

lemma os_path_Some:
  "os_path base a = Some osp \<Longrightarrow> \<exists>d. osp = base @ [''Package'', ''Environment'', d]"
  by (auto simp: os_path_def split: if_splits)

lemma place_executable_skipped:
  "\<not> wants_executable a \<Longrightarrow> place_executable n base a s = Some (Inr s)"
  by (simp add: place_executable_def)

lemma os_makedirs_in_dir:
  assumes "p \<noteq> []" "stat (fs s) (butlast p) = Some (Dir True)" "stat (fs s) p = None"
  shows "os_makedirs p s = Inr (commit (AList.update p (Dir True) (fs s)) s)"
  using assms by (subst os_makedirs.simps) (simp add: exists_iff os_mkdir_def)

lemma script_prepare_failed:
  "prepare_output base a s = Inl e \<Longrightarrow> script n base a s = Some (Inl e)"
  by (simp add: script_def and_then_opt_def)

lemma script_prepared:
  "prepare_output base a s = Inr s0 \<Longrightarrow>
   script n base a s = and_then_opt (copy_assets n base a s0) (place_executable n base a)"
  by (simp add: script_def and_then_opt_def)

subsection \<open>The example states\<close>

lemma wf_demo: "wf_fs (fs demo)"
  by (simp add: demo_def wf_fs_def os_path_isdir_def stat_def)

lemma wf_checkout: "wf_fs (fs checkout)"
  by code_simp

lemma wf_themed: "wf_fs (fs themed_common)" "wf_fs (fs themed_windows)"
  by code_simp+

lemma and_then_simps [simp]:
  "and_then (Inr s) k = k s" "and_then (Inl e) k = Inl e"
  by (simp_all add: and_then_def)

lemma and_then_opt_simps [simp]:
  "and_then_opt None k' = None" "and_then_opt (Some (Inl e)) k' = Some (Inl e)"
  "and_then_opt (Some (Inr s)) k' = k' s"
  by (simp_all add: and_then_opt_def)

subsection \<open>Copying a file that does not exist\<close>

lemma shutil_copy_missing:
  assumes "\<not> os_path_exists (fs s) src"
  shows "\<exists>e. shutil_copy src dst s = Inl (OSError e, s)"
  using assms
  by (auto simp: shutil_copy_def shutil_copyfile_def exists_iff)

lemma place_linux_missing:
  assumes "\<not> os_path_exists (fs s) (src_exe_linux base)"
  shows "\<exists>e s'. place_linux base a s = Inl (e, s')"
  using shutil_copy_missing[OF assms, of "output_path base a"] by (auto simp: place_linux_def)

lemma place_windows_missing:
  assumes "\<not> os_path_exists (fs s) (src_exe_windows base)"
  shows "\<exists>e s'. place_windows base a s = Inl (e, s')"
proof -
  let ?core = "output_path base a @ [''retrofe'']"
  define r0 where "r0 = (if \<not> os_path_exists (fs s) ?core then os_makedirs ?core s else Inr s)"
  show ?thesis
  proof (cases r0)
    case (Inl x)
    then show ?thesis by (cases x) (auto simp: place_windows_def r0_def)
  next
    case (Inr s1)
    have "touches_only ?core (fs s) (fs s1)"
      using os_makedirs_touches[of ?core ?core s] Inr
      by (auto simp: r0_def touches_only_refl split: if_splits)
    then have "stat (fs s1) (base @ ''RetroFE'' # [''Build'', ''Release'', ''retrofe.exe'']) =
        stat (fs s) (base @ ''RetroFE'' # [''Build'', ''Release'', ''retrofe.exe''])"
      by (rule stat_outside_output) simp
    then have "\<not> os_path_exists (fs s1) (src_exe_windows base)"
      using assms by (simp add: exists_iff src_exe_windows_def)
    from shutil_copy_missing[OF this, of ?core] show ?thesis
      using Inr by (auto simp: place_windows_def r0_def[symmetric])
  qed
qed

lemma build_full_returns:
  assumes "0 < n"
    and c: "\<forall>rel. stat (fs s) (common_path base @ rel) \<noteq> None \<longrightarrow> length rel < n"
    and o: "\<And>osp. os_path base a = Some osp \<Longrightarrow>
             \<forall>rel. stat (fs s) (osp @ rel) \<noteq> None \<longrightarrow> length rel < n"
  shows "\<exists>r. build_full n base a s = Some r"
proof -
  let ?out = "output_path base a"
  have cp: "common_path base = base @ ''Package'' # [''Environment'', ''Common'']"
    by (simp add: common_path_def)
  have "\<exists>r. copytree n (common_path base) ?out s = Some r"
    unfolding cp by (rule copytree_returns_bounded)
      (use assms(1) c in \<open>simp_all add: outside_output cp\<close>)
  then obtain r1 where r1: "copytree n (common_path base) ?out s = Some r1" by blast
  show ?thesis
  proof (cases r1)
    case (Inl e)
    then show ?thesis using r1 by (simp add: build_full_def)
  next
    case (Inr s1)
    have t: "touches_only ?out (fs s) (fs s1)" using copytree_touches[OF r1] Inr by simp
    show ?thesis
    proof (cases "os_path base a")
      case None
      then show ?thesis using r1 Inr by (simp add: build_full_def)
    next
      case (Some osp)
      from os_path_Some[OF Some] obtain d where
        osp: "osp = base @ ''Package'' # [''Environment'', d]" by auto
      have "stat (fs s1) (osp @ rel) = stat (fs s) (osp @ rel)" for rel
        unfolding osp using stat_outside_output'[OF t, of "''Package''"] by simp
      then have b: "\<forall>rel. stat (fs s1) (osp @ rel) \<noteq> None \<longrightarrow> length rel < n"
        using o[OF Some] by simp
      have "\<exists>r. copytree n osp ?out s1 = Some r"
        by (rule copytree_returns_bounded[OF _ _ assms(1) b])
           (simp_all add: osp outside_output)
      then obtain r2 where r2: "copytree n osp ?out s1 = Some r2" by blast
      show ?thesis using r1 Inr Some r2 by (cases r2) (simp_all add: build_full_def)
    qed
  qed
qed

subsection \<open>The recorded history\<close>

lemma recorded_refl: "recorded s s"
  by (simp add: recorded_def)

lemma recorded_trans: "recorded a b \<Longrightarrow> recorded b c \<Longrightarrow> recorded a c"
  unfolding recorded_def
proof (elim exE conjE)
  fix h1 h2
  assume a: "hist b = hist a @ h1" "fs b = last (fs a # h1)"
    and b: "hist c = hist b @ h2" "fs c = last (fs b # h2)"
  have "hist c = hist a @ (h1 @ h2)" using a b by simp
  moreover have "fs c = last (fs a # (h1 @ h2))" using a b by (cases h2) auto
  ultimately show "\<exists>hs. hist c = hist a @ hs \<and> fs c = last (fs a # hs)" by blast
qed

lemma recorded_commit: "recorded s (commit f s)"
  unfolding recorded_def by (rule exI[of _ "[f]"]) simp

lemma recorded_print: "recorded s (py_print l s)"
  unfolding recorded_def by (rule exI[of _ "[]"]) simp

lemma os_mkdir_recorded: "recorded s (state_of (os_mkdir p s))"
proof (cases "os_mkdir p s")
  case (Inl x)
  then show ?thesis by (cases x) (auto dest: os_mkdir_Inl simp: recorded_refl)
next
  case (Inr s')
  from os_mkdir_Inr[OF this] show ?thesis using Inr by (simp add: recorded_commit)
qed

lemma os_makedirs_recorded: "recorded s (state_of (os_makedirs p s))"
  by (rule os_makedirs_rel[where R = recorded])
     (auto intro: recorded_refl recorded_trans os_mkdir_recorded)

lemma mkdir_p_recorded: "recorded s (state_of (mkdir_p p s))"
proof -
  let ?s0 = "py_print (''CREATE: '' @ render p) s"
  have "recorded s ?s0" by (rule recorded_print)
  moreover have "recorded ?s0 (state_of (os_makedirs p ?s0))" by (rule os_makedirs_recorded)
  moreover have "state_of (mkdir_p p s) = state_of (os_makedirs p ?s0)"
    by (auto simp: mkdir_p_def split: sum.splits prod.splits exn.splits if_splits)
  ultimately show ?thesis using recorded_trans by simp
qed

lemma shutil_copyfile_recorded: "recorded s (state_of (shutil_copyfile src dst s))"
proof (cases "shutil_copyfile src dst s")
  case (Inl x)
  then show ?thesis by (cases x) (auto dest: shutil_copyfile_Inl simp: recorded_refl)
next
  case (Inr s')
  from shutil_copyfile_Inr[OF this] obtain b where "write_file dst b s = Inr s'" by blast
  from write_file_Inr[OF this] show ?thesis using Inr
    by (auto intro: recorded_trans[OF recorded_commit recorded_commit])
qed

lemma copytree_recorded:
  assumes "copytree n src dst s = Some r" shows "recorded s (state_of r)"
  by (rule copytree_rel[where R = recorded, OF _ _ _ assms])
     (auto intro: recorded_refl recorded_trans recorded_print mkdir_p_recorded
        shutil_copyfile_recorded)

lemma wf_fs_ancestors:
  assumes "wf_fs f" "stat f p = Some e" "strict_prefix q p" shows "os_path_isdir f q"
proof -
  from assms(3) obtain r where "p = q @ r" "r \<noteq> []" by (auto simp: strict_prefix_def prefix_def)
  with wf_fs_prefix[OF assms(1), of q r] assms(2) show ?thesis by simp
qed

lemma Some_Inr_state_of:
  assumes "map_option isl x = Some False" shows "\<exists>s'. x = Some (Inr s')"
proof (cases x)
  case None with assms show ?thesis by simp
next
  case (Some a)
  with assms show ?thesis by (cases a) auto
qed

subsection \<open>Growing filesystems\<close>

lemma grows_refl: "grows f f"
  by (simp add: grows_def)

lemma grows_trans: "grows f g \<Longrightarrow> grows g h \<Longrightarrow> grows f h"
  unfolding grows_def by (metis option.distinct(1))

lemma creates_prefixes_grows: "creates_prefixes p f g \<Longrightarrow> grows f g"
  unfolding creates_prefixes_def grows_def by blast

lemma grows_keeps: "grows f g \<Longrightarrow> stat f q = Some e \<Longrightarrow> stat g q = Some e"
  unfolding grows_def by (metis option.distinct(1))

lemma mkdir_p_grows: "grows (fs s) (fs (state_of (mkdir_p p s)))"
  by (rule creates_prefixes_grows[OF mkdir_p_creates])

lemma for_each_visits:
  assumes refl: "\<And>s. R s s" and trans: "\<And>a b c. R a b \<Longrightarrow> R b c \<Longrightarrow> R a c"
    and body: "\<And>y t. R t (state_of (body y t))"
  shows "for_each body xs s = Inr s' \<Longrightarrow> x \<in> set xs \<Longrightarrow>
     \<exists>t t'. R s t \<and> body x t = Inr t' \<and> R t' s'"
proof (induction xs arbitrary: s)
  case Nil then show ?case by simp
next
  case (Cons y ys)
  from Cons.prems(1) obtain s1 where y: "body y s = Inr s1" and l: "for_each body ys s1 = Inr s'"
    by (cases "body y s") auto
  have r1: "R s s1" using body[of s y] y by simp
  have r2: "R s1 s'"
    using for_each_rel[where R = R and body = body and xs = ys and s = s1, OF refl trans body] l
    by simp
  show ?case
  proof (cases "x = y")
    case True
    then show ?thesis using y r2 refl by blast
  next
    case False
    with Cons.prems(2) have "x \<in> set ys" by simp
    from Cons.IH[OF l this] obtain t t' where "R s1 t" "body x t = Inr t'" "R t' s'" by blast
    then show ?thesis using r1 trans by blast
  qed
qed

lemma scaffold_collection_grows:
  "grows (fs s) (fs (state_of (scaffold_collection output c s)))"
  unfolding scaffold_collection_def
  by (auto intro!: for_each_rel[where R = "\<lambda>s s'. grows (fs s) (fs s')"]
      intro: grows_refl grows_trans mkdir_p_grows)

lemma scaffolded_path:
  assumes m: "mkdir_p p u = Inr u'" and g0: "grows (fs s) (fs u)" and g1: "grows (fs u') (fs s')"
  shows "os_path_exists (fs s') p"
    and "\<not> os_path_isfile (fs s) p \<Longrightarrow> os_path_isdir (fs s') p"
proof -
  from mkdir_p_Inr_exists[OF m] obtain e where e: "stat (fs u') p = Some e"
    by (auto simp: exists_iff)
  from grows_keeps[OF g1 e] show "os_path_exists (fs s') p" by (simp add: exists_iff)
  assume nf: "\<not> os_path_isfile (fs s) p"
  have "\<exists>w. e = Dir w"
  proof (cases "os_path_exists (fs u) p")
    case False
    from mkdir_p_Inr_created[OF m False] e show ?thesis by auto
  next
    case True
    then obtain e0 where e0: "stat (fs u) p = Some e0" by (auto simp: exists_iff)
    have "grows (fs u) (fs u')" using mkdir_p_grows[of u p] m by simp
    from grows_keeps[OF this e0] e have ee: "e = e0" by simp
    have "stat (fs s) p = Some e0 \<or> e0 = Dir True"
      using g0 e0 unfolding grows_def by (metis option.inject)
    with nf ee show ?thesis by (cases e0) (auto simp: isfile_iff)
  qed
  with grows_keeps[OF g1 e] show "os_path_isdir (fs s') p" by (auto simp: isdir_iff)
qed

lemma scaffold_collection_skips:
  assumes "startswith_underscore d"
  shows "stat (fs (state_of (scaffold_collection output c s))) (output @ ''collections'' # d # r) =
         stat (fs s) (output @ ''collections'' # d # r)"
proof (cases "startswith_underscore c")
  case True
  then show ?thesis by (simp add: scaffold_collection_def)
next
  case False
  then have cd: "c \<noteq> d" using assms by auto
  let ?q = "output @ ''collections'' # d # r"
  have "stat (fs (state_of (for_each
          (\<lambda>subdir. mkdir_p (output @ [''collections'', c] @ subdir)) dirs_to_create s))) ?q =
        stat (fs s) ?q"
  proof (rule for_each_rel[where R = "\<lambda>s s'. stat (fs s') ?q = stat (fs s) ?q"])
    fix x t
    have "creates_prefixes (output @ [''collections'', c] @ x) (fs t)
        (fs (state_of (mkdir_p (output @ [''collections'', c] @ x) t)))"
      by (rule mkdir_p_creates)
    moreover have "\<not> prefix ?q (output @ [''collections'', c] @ x)" using cd by simp
    ultimately show "stat (fs (state_of (mkdir_p (output @ [''collections'', c] @ x) t))) ?q =
        stat (fs t) ?q"
      unfolding creates_prefixes_def by blast
  qed simp_all
  then show ?thesis using False by (simp add: scaffold_collection_def)
qed

lemma build_full_scaffolds:
  assumes "build_full n base a s = Some (Inr s')"
  shows "\<exists>s2. scaffold_collections (output_path base a) s2 = Inr s'"
  using assms
  by (auto simp: build_full_def and_then_opt_def and_then_def
      split: option.splits sum.splits)

subsection \<open>Creating a directory inside a regular file\<close>

lemma mkdir_p_parent_file:
  assumes "p \<noteq> []" "stat (fs u) (butlast p) = Some (File b)"
  shows "isl (mkdir_p p u)"
proof -
  let ?u = "py_print (''CREATE: '' @ render p) u"
  have "os_makedirs p ?u = os_mkdir p ?u"
    using assms by (subst os_makedirs.simps) (simp add: exists_iff)
  then have "os_makedirs p ?u = Inl (OSError ENOTDIR, ?u)"
    using assms by (simp add: os_mkdir_def)
  then show ?thesis by (simp add: mkdir_p_def)
qed

subsection \<open>The asset step returns\<close>

lemma copy_assets_returns:
  assumes nl: "build a \<noteq> ''layout''"
    and sh: "build a = ''full'' \<longrightarrow> shallow (fs s) (common_path base) n \<and>
           (\<forall>osp. os_path base a = Some osp \<longrightarrow> shallow (fs s) osp n)"
    and t0: "touches_only (output_path base a) (fs s) (fs s0)"
  shows "\<exists>r. copy_assets n base a s0 = Some r"
proof (cases "build a = ''full''")
  case False
  then show ?thesis using nl by (simp add: copy_assets_def)
next
  case True
  have same0: "stat (fs s0) (base @ x # xs) = stat (fs s) (base @ x # xs)"
    if "x \<noteq> ''Artifacts''" for x xs
    using stat_outside_output'[OF t0 that] .
  from True sh have shc: "shallow (fs s) (common_path base) n"
    and sho: "\<And>osp. os_path base a = Some osp \<Longrightarrow> shallow (fs s) osp n" by blast+
  have cp: "common_path base = base @ ''Package'' # [''Environment'', ''Common'']"
    by (simp add: common_path_def)
  have "\<forall>rel. stat (fs s0) (common_path base @ rel) \<noteq> None \<longrightarrow> length rel < n"
    using shallow_bound[OF shc] same0[of "''Package''"] by (simp add: cp)
  moreover have "\<forall>rel. stat (fs s0) (osp @ rel) \<noteq> None \<longrightarrow> length rel < n"
    if osp: "os_path base a = Some osp" for osp
  proof (intro allI impI)
    fix rel assume a: "stat (fs s0) (osp @ rel) \<noteq> None"
    from os_path_Some[OF osp] obtain d where
      ospd: "osp = base @ ''Package'' # [''Environment'', d]" by auto
    have "stat (fs s0) (osp @ rel) = stat (fs s) (osp @ rel)"
      unfolding ospd using same0[of "''Package''" "[''Environment'', d] @ rel"] by simp
    with a have "stat (fs s) (osp @ rel) \<noteq> None" by simp
    then show "length rel < n" by (rule shallow_bound[OF sho[OF osp]])
  qed
  moreover have "0 < n" using shc by (simp add: shallow_def)
  ultimately have "\<exists>r. build_full n base a s0 = Some r"
    by (intro build_full_returns) auto
  then show ?thesis using True by (simp add: copy_assets_def)
qed

lemma wf_mac_checkout: "wf_fs (fs mac_checkout)"
  by code_simp

subsection \<open>The copier creates the directories it copies into\<close>

lemma os_mkdir_not_ENOENT:
  "p = [] \<or> stat (fs s) (butlast p) \<noteq> None \<Longrightarrow> os_mkdir p s \<noteq> Inl (OSError ENOENT, s')"
  by (auto simp: os_mkdir_def split: if_splits option.splits entry.splits)

lemma os_makedirs_not_ENOENT: "os_makedirs p s \<noteq> Inl (OSError ENOENT, s')"
proof (induction p s arbitrary: s' rule: os_makedirs.induct)
  case (1 p s)
  show ?case
  proof (cases "p \<noteq> [] \<and> \<not> os_path_exists (fs s) (butlast p)")
    case False
    then have "os_makedirs p s = os_mkdir p s" by (subst os_makedirs.simps) auto
    moreover have "os_mkdir p s \<noteq> Inl (OSError ENOENT, s')"
      using False by (intro os_mkdir_not_ENOENT) (auto simp: exists_iff)
    ultimately show ?thesis by simp
  next
    case True
    show ?thesis
    proof (cases "os_makedirs (butlast p) s")
      case (Inl x)
      obtain e t where x: "x = (e, t)" by (cases x)
      show ?thesis
      proof (cases "e = OSError EEXIST")
        case e: True
        from Inl x e have "os_path_exists (fs t) (butlast p)" by (auto dest: os_makedirs_EEXIST)
        then have "os_mkdir p t \<noteq> Inl (OSError ENOENT, s')"
          by (intro os_mkdir_not_ENOENT) (auto simp: exists_iff)
        moreover have "os_makedirs p s = os_mkdir p t"
          using True Inl x e by (subst os_makedirs.simps) simp
        ultimately show ?thesis by simp
      next
        case e: False
        have "os_makedirs p s = Inl (e, t)"
          using True Inl x e by (subst os_makedirs.simps) simp
        moreover have "e \<noteq> OSError ENOENT" using "1.IH"[OF True, of t] Inl x by auto
        ultimately show ?thesis by simp
      qed
    next
      case (Inr t)
      then have "stat (fs t) (butlast p) = Some (Dir True)" by (rule os_makedirs_Inr)
      then have "os_mkdir p t \<noteq> Inl (OSError ENOENT, s')"
        by (intro os_mkdir_not_ENOENT) simp
      moreover have "os_makedirs p s = os_mkdir p t"
        using True Inr by (subst os_makedirs.simps) simp
      ultimately show ?thesis by simp
    qed
  qed
qed

lemma mkdir_p_not_ENOENT: "mkdir_p p s \<noteq> Inl (OSError ENOENT, s')"
  using os_makedirs_not_ENOENT[of p "py_print (''CREATE: '' @ render p) s" s']
  by (auto simp: mkdir_p_def split: sum.splits prod.splits exn.splits if_splits)

lemma shutil_copyfile_persists:
  "stat (fs s) q \<noteq> None \<Longrightarrow> stat (fs (state_of (shutil_copyfile p d s))) q \<noteq> None"
proof (cases "shutil_copyfile p d s")
  case (Inl x)
  assume "stat (fs s) q \<noteq> None"
  then show ?thesis using Inl by (cases x) (auto dest: shutil_copyfile_Inl)
next
  case (Inr t)
  assume "stat (fs s) q \<noteq> None"
  then show ?thesis using Inr
    by (auto dest!: shutil_copyfile_Inr write_file_Inr simp: stat_update)
qed

lemma copytree_persists:
  assumes "copytree n src dst s = Some r" "stat (fs s) q \<noteq> None"
  shows "stat (fs (state_of r)) q \<noteq> None"
proof -
  let ?R = "\<lambda>s s'. \<forall>q. stat (fs s) q \<noteq> None \<longrightarrow> stat (fs s') q \<noteq> None"
  have "?R s (state_of r)"
  proof (rule copytree_rel[where R = ?R, OF _ _ _ assms(1)])
    fix q s
    have "grows (fs s) (fs (state_of (mkdir_p q s)))" by (rule mkdir_p_grows)
    then show "?R s (state_of (mkdir_p q s))" by (auto dest: grows_keeps)
  next
    fix p q s
    show "?R s (state_of (shutil_copyfile p q s))"
      using shutil_copyfile_persists[of s _ p q] by blast
  qed auto
  with assms(2) show ?thesis by blast
qed

lemma shutil_copyfile_not_ENOENT:
  assumes "stat (fs s) src \<noteq> None" "dst \<noteq> []" "stat (fs s) (butlast dst) \<noteq> None"
  shows "shutil_copyfile src dst s \<noteq> Inl (OSError ENOENT, s')"
  using assms
  by (auto simp: shutil_copyfile_def write_file_def
      split: if_splits option.splits entry.splits)

lemma copy_loop_not_ENOENT:
  assumes IH: "\<And>src dst s s'. stat (fs s) src \<noteq> None \<Longrightarrow>
      (\<not> os_path_isdir (fs s) src \<longrightarrow> dst \<noteq> [] \<and> stat (fs s) (butlast dst) \<noteq> None) \<Longrightarrow>
      copytree n src dst s \<noteq> Some (Inl (OSError ENOENT, s'))"
  shows "\<forall>name \<in> set names. stat (fs s) (src @ [name]) \<noteq> None \<Longrightarrow>
     stat (fs s) dst \<noteq> None \<Longrightarrow>
     for_each_opt (\<lambda>name. copytree n (src @ [name]) (dst @ [name])) names s \<noteq>
       Some (Inl (OSError ENOENT, s'))"
proof (induction names arbitrary: s)
  case Nil
  then show ?case by simp
next
  case (Cons y ys)
  show ?case
  proof (cases "copytree n (src @ [y]) (dst @ [y]) s")
    case None
    then show ?thesis by (simp add: and_then_opt_def)
  next
    case (Some r)
    show ?thesis
    proof (cases r)
      case (Inl x)
      obtain e t where x: "x = (e, t)" by (cases x)
      have "copytree n (src @ [y]) (dst @ [y]) s \<noteq> Some (Inl (OSError ENOENT, t))"
        by (rule IH) (use Cons.prems in auto)
      then show ?thesis using Some Inl x by (auto simp: and_then_opt_def)
    next
      case (Inr t)
      have k: "stat (fs s) q \<noteq> None \<Longrightarrow> stat (fs t) q \<noteq> None" for q
        using copytree_persists[OF Some] Inr by simp
      have "for_each_opt (\<lambda>name. copytree n (src @ [name]) (dst @ [name])) ys t \<noteq>
          Some (Inl (OSError ENOENT, s'))"
        by (rule Cons.IH) (use Cons.prems k in auto)
      then show ?thesis using Some Inr by (simp add: and_then_opt_def)
    qed
  qed
qed

lemma copytree_not_ENOENT:
  "stat (fs s) src \<noteq> None \<Longrightarrow>
   (\<not> os_path_isdir (fs s) src \<longrightarrow> dst \<noteq> [] \<and> stat (fs s) (butlast dst) \<noteq> None) \<Longrightarrow>
   copytree n src dst s \<noteq> Some (Inl (OSError ENOENT, s'))"
proof (induction n arbitrary: src dst s s')
  case 0
  then show ?case by simp
next
  case (Suc m)
  show ?case
  proof (cases "os_path_isdir (fs s) src")
    case False
    then show ?thesis
      using Suc.prems shutil_copyfile_not_ENOENT[of "py_print (''COPY: '' @ render dst) s" src dst s']
      by simp
  next
    case True
    define r1 where "r1 = (if \<not> os_path_exists (fs s) dst then mkdir_p dst s else Inr s)"
    show ?thesis
    proof (cases r1)
      case (Inl x)
      obtain e t where x: "x = (e, t)" by (cases x)
      from Inl x have "mkdir_p dst s = Inl (e, t)" by (auto simp: r1_def split: if_splits)
      then have "e \<noteq> OSError ENOENT" using mkdir_p_not_ENOENT[of dst s t] by auto
      then show ?thesis using True Inl x r1_def by simp
    next
      case (Inr s1)
      have g: "grows (fs s) (fs s1)"
        using mkdir_p_grows[of s dst] Inr by (auto simp: r1_def grows_refl split: if_splits)
      have d: "stat (fs s1) dst \<noteq> None"
        using Inr mkdir_p_Inr_exists[of dst s s1]
        by (auto simp: r1_def exists_iff split: if_splits)
      from True obtain w where "stat (fs s) src = Some (Dir w)" by (auto simp: isdir_iff)
      from grows_keeps[OF g this] have sd: "stat (fs s1) src = Some (Dir w)" .
      then obtain names where names: "os_listdir (fs s1) src = Inr names"
        by (auto simp: os_listdir_def)
      have "for_each_opt (\<lambda>name. copytree m (src @ [name]) (dst @ [name])) names s1 \<noteq>
          Some (Inl (OSError ENOENT, s'))"
        by (rule copy_loop_not_ENOENT[OF Suc.IH])
           (use os_listdir_Inr(2)[OF names] d in auto)
      then show ?thesis using True Inr names r1_def by simp
    qed
  qed
qed

subsection \<open>Copying into a new directory\<close>

lemma os_makedirs_fresh:
  assumes "wf_fs (fs s)" "stat (fs s) q = Some (Dir True)" "stat (fs s) (q @ [x]) = None"
  shows "\<exists>s'. os_makedirs (q @ x # r) s = Inr s'"
proof (induction r rule: rev_induct)
  case Nil
  show ?case
    using os_makedirs_in_dir[of "q @ [x]" s] assms(2,3) by (simp add: butlast_append)
next
  case (snoc y ys)
  then obtain t where t: "os_makedirs (q @ x # ys) s = Inr t" by blast
  have b: "butlast (q @ x # ys @ [y]) = q @ x # ys" by (simp add: butlast_append)
  have m: "stat (fs s) ((q @ [x]) @ ys) = None"
  proof (cases "ys = []")
    case True then show ?thesis using assms(3) by simp
  next
    case False then show ?thesis by (rule wf_fs_missing_below[OF assms(1,3)])
  qed
  have my: "stat (fs s) ((q @ [x]) @ ys @ [y]) = None"
    by (rule wf_fs_missing_below[OF assms(1,3)]) simp
  have c: "creates_prefixes (q @ x # ys) (fs s) (fs t)"
    using os_makedirs_creates[of "q @ x # ys" s] t by simp
  have "\<not> prefix (q @ x # ys @ [y]) (q @ x # ys)" by (auto simp: prefix_def)
  with c my have n: "stat (fs t) (q @ x # ys @ [y]) = None"
    unfolding creates_prefixes_def by (metis append.assoc append_Cons append_Nil)
  have p: "stat (fs t) (q @ x # ys) = Some (Dir True)" using t by (rule os_makedirs_Inr)
  have "os_mkdir (q @ x # ys @ [y]) t =
      Inr (commit (AList.update (q @ x # ys @ [y]) (Dir True) (fs t)) t)"
    using n p by (simp add: os_mkdir_def b exists_iff)
  then show ?case using m t
    by (subst os_makedirs.simps) (simp add: b exists_iff)
qed

lemma mkdir_p_fresh:
  assumes "wf_fs (fs s)" "stat (fs s) q = Some (Dir True)" "stat (fs s) (q @ [x]) = None"
  shows "\<exists>s'. mkdir_p (q @ x # r) s = Inr s'"
  using os_makedirs_fresh[of "py_print (''CREATE: '' @ render (q @ x # r)) s" q x r] assms
  by (auto simp: mkdir_p_def)

lemma copy_loop_fresh:
  assumes IH: "\<And>src dst s q x r. wf_fs (fs s) \<Longrightarrow> \<not> prefix src dst \<Longrightarrow> \<not> prefix dst src \<Longrightarrow>
      (\<forall>rel. stat (fs s) (src @ rel) \<noteq> None \<longrightarrow> length rel < m) \<Longrightarrow>
      stat (fs s) src \<noteq> None \<Longrightarrow> dst = q @ x # r \<Longrightarrow>
      stat (fs s) q = Some (Dir True) \<Longrightarrow> stat (fs s) (q @ [x]) = None \<Longrightarrow>
      (r \<noteq> [] \<longrightarrow> os_path_isdir (fs s) src) \<Longrightarrow>
      \<exists>s'. copytree m src dst s = Some (Inr s')"
    and inc: "\<not> prefix src dst" "\<not> prefix dst src"
  shows "distinct xs \<Longrightarrow> wf_fs (fs s) \<Longrightarrow> stat (fs s) dst = Some (Dir True) \<Longrightarrow>
     (\<forall>y \<in> set xs. stat (fs s) (dst @ [y]) = None \<and> stat (fs s) (src @ [y]) \<noteq> None) \<Longrightarrow>
     (\<forall>y rel. stat (fs s) (src @ y # rel) \<noteq> None \<longrightarrow> length rel < m) \<Longrightarrow>
     \<exists>s'. for_each_opt (\<lambda>name. copytree m (src @ [name]) (dst @ [name])) xs s = Some (Inr s')"
proof (induction xs arbitrary: s)
  case Nil
  then show ?case by simp
next
  case (Cons y ys)
  have "\<exists>s'. copytree m (src @ [y]) (dst @ [y]) s = Some (Inr s')"
  proof (rule IH[where q = dst and x = y and r = "[]"])
    show "\<forall>rel. stat (fs s) ((src @ [y]) @ rel) \<noteq> None \<longrightarrow> length rel < m"
      using Cons.prems(5) by simp
  qed (use Cons.prems incomparable_child[OF inc] in auto)
  then obtain s1 where s1: "copytree m (src @ [y]) (dst @ [y]) s = Some (Inr s1)" by blast
  have t: "touches_only (dst @ [y]) (fs s) (fs s1)" using copytree_touches[OF s1] by simp
  have wf1: "wf_fs (fs s1)" using copytree_wf_fs[OF s1 Cons.prems(2)] by simp
  have d1: "stat (fs s1) dst = Some (Dir True)"
    by (rule touches_only_keeps[OF t Cons.prems(3)]) simp
  have i1: "\<not> prefix src (dst @ [y])" using inc by (auto simp: prefix_snoc)
  have i2: "\<not> prefix (dst @ [y]) src" using inc(2) by (meson append_prefixD)
  have same: "stat (fs s1) (src @ rel) = stat (fs s) (src @ rel)" for rel
    by (rule source_untouched[OF t i1 i2])
  have o: "stat (fs s1) (dst @ [z]) = None" if "z \<in> set ys" for z
  proof -
    have "z \<noteq> y" using that Cons.prems(1) by auto
    then have "stat (fs s1) (dst @ [z]) = stat (fs s) (dst @ [z])"
      by (intro touches_only_outside[OF t]) auto
    then show ?thesis using that Cons.prems(4) by simp
  qed
  have "\<exists>s'. for_each_opt (\<lambda>name. copytree m (src @ [name]) (dst @ [name])) ys s1 =
      Some (Inr s')"
  proof (rule Cons.IH[OF _ wf1 d1])
    show "distinct ys" using Cons.prems(1) by simp
    show "\<forall>z \<in> set ys. stat (fs s1) (dst @ [z]) = None \<and> stat (fs s1) (src @ [z]) \<noteq> None"
      using o same[of "[z]" for z] Cons.prems(4) by simp
    show "\<forall>z rel. stat (fs s1) (src @ z # rel) \<noteq> None \<longrightarrow> length rel < m"
      using same[of "z # rel" for z rel] Cons.prems(5) by simp
  qed
  then show ?case using s1 by (simp add: and_then_opt_def)
qed

lemma copytree_fresh:
  "wf_fs (fs s) \<Longrightarrow> \<not> prefix src dst \<Longrightarrow> \<not> prefix dst src \<Longrightarrow>
   (\<forall>rel. stat (fs s) (src @ rel) \<noteq> None \<longrightarrow> length rel < n) \<Longrightarrow>
   stat (fs s) src \<noteq> None \<Longrightarrow> dst = q @ x # r \<Longrightarrow>
   stat (fs s) q = Some (Dir True) \<Longrightarrow> stat (fs s) (q @ [x]) = None \<Longrightarrow>
   (r \<noteq> [] \<longrightarrow> os_path_isdir (fs s) src) \<Longrightarrow>
   \<exists>s'. copytree n src dst s = Some (Inr s')"
proof (induction n arbitrary: src dst s q x r)
  case 0
  from "0.prems"(4,5) have "length ([] :: string list) < 0" by (metis append_Nil2)
  then show ?case by simp
next
  case (Suc m)
  note wf = Suc.prems(1) and inc = Suc.prems(2,3) and dst = Suc.prems(6)
  have dmiss: "stat (fs s) dst = None"
  proof (cases "r = []")
    case True then show ?thesis using Suc.prems(8) dst by simp
  next
    case False
    then show ?thesis using wf_fs_missing_below[OF wf Suc.prems(8), of r] dst by simp
  qed
  show ?case
  proof (cases "os_path_isdir (fs s) src")
    case False
    then have r: "r = []" using Suc.prems(9) by blast
    from False Suc.prems(5) obtain b where b: "stat (fs s) src = Some (File b)"
      by (cases "stat (fs s) src") (auto simp: isdir_iff, case_tac a, auto)
    have "src \<noteq> dst" using inc by auto
    then have "shutil_copyfile src dst (py_print (''COPY: '' @ render dst) s) =
        write_file dst b (py_print (''COPY: '' @ render dst) s)"
      using b by (simp add: shutil_copyfile_def)
    moreover have "\<exists>s'. write_file dst b (py_print (''COPY: '' @ render dst) s) = Inr s'"
      using dst r Suc.prems(7,8) by (simp add: write_file_def butlast_append)
    ultimately show ?thesis using False by simp
  next
    case True
    from mkdir_p_fresh[OF wf Suc.prems(7,8), of r] dst
    obtain s1 where s1: "mkdir_p dst s = Inr s1" by auto
    have d1: "stat (fs s1) dst = Some (Dir True)"
      using mkdir_p_Inr_created[OF s1] dmiss by (simp add: exists_iff)
    have wf1: "wf_fs (fs s1)" using mkdir_p_wf_fs[OF wf, of dst] s1 by simp
    have cr: "creates_prefixes dst (fs s) (fs s1)" using mkdir_p_creates[of dst s] s1 by simp
    have t: "touches_only dst (fs s) (fs s1)" by (rule creates_prefixes_touches[OF cr])
    have same: "stat (fs s1) (src @ rel) = stat (fs s) (src @ rel)" for rel
      by (rule source_untouched[OF t inc])
    from True same[of "[]"] obtain names where names: "os_listdir (fs s1) src = Inr names"
      by (auto simp: os_listdir_def isdir_iff)
    have below: "stat (fs s1) (dst @ [y]) = None" for y
    proof -
      have "stat (fs s) (dst @ [y]) = None" by (rule wf_fs_missing_below[OF wf dmiss]) simp
      moreover have "\<not> prefix (dst @ [y]) dst" by (auto simp: prefix_def)
      ultimately show ?thesis using cr unfolding creates_prefixes_def by metis
    qed
    have "\<exists>s'. for_each_opt (\<lambda>name. copytree m (src @ [name]) (dst @ [name])) names s1 =
        Some (Inr s')"
    proof (rule copy_loop_fresh[OF Suc.IH inc _ wf1 d1])
      show "distinct names" by (rule os_listdir_Inr(1)[OF names])
      show "\<forall>y \<in> set names. stat (fs s1) (dst @ [y]) = None \<and> stat (fs s1) (src @ [y]) \<noteq> None"
        using below os_listdir_Inr(2)[OF names] by simp
      show "\<forall>y rel. stat (fs s1) (src @ y # rel) \<noteq> None \<longrightarrow> length rel < m"
      proof (intro allI impI)
        fix y rel assume "stat (fs s1) (src @ y # rel) \<noteq> None"
        then have "stat (fs s) (src @ y # rel) \<noteq> None" using same by simp
        with Suc.prems(4) have "length (y # rel) < Suc m" by blast
        then show "length rel < m" by simp
      qed
    qed
    then show ?thesis using True dmiss s1 names by (simp add: exists_iff)
  qed
qed

section \<open>The directory ensurer\<close>

text \<open>
  C2, in the form that holds of the code. On a well-formed filesystem \<open>mkdir_p\<close> returns without raising
  whenever the path already exists, as a directory or as a regular file, and then
  changes nothing but the trace (for a regular file no directory is created). It raises
  \<^verbatim>\<open>ENOTDIR\<close> when a proper ancestor of the path is a regular file, and
  \<^verbatim>\<open>EACCES\<close> when the first missing directory on the way would have to be
  created in a directory that forbids it. In general every \<^verbatim>\<open>OSError\<close> of
  \<^verbatim>\<open>os.makedirs\<close> whose errno is not \<^verbatim>\<open>EEXIST\<close> is raised
  unchanged, and a successful \<^verbatim>\<open>os.makedirs\<close> is a successful call.
\<close>

theorem mkdir_p_outcomes:
  assumes "wf_fs (fs s)"
  shows "(os_path_exists (fs s) p \<longrightarrow> mkdir_p p s = Inr (py_print (''CREATE: '' @ render p) s)) \<and>
    (stat (fs s) qf = Some (File b) \<longrightarrow>
       mkdir_p (qf @ xf # rf) s =
         Inl (OSError ENOTDIR, py_print (''CREATE: '' @ render (qf @ xf # rf)) s)) \<and>
    (stat (fs s) qd = Some (Dir False) \<and> stat (fs s) (qd @ [xd]) = None \<longrightarrow>
       mkdir_p (qd @ xd # rd) s =
         Inl (OSError EACCES, py_print (''CREATE: '' @ render (qd @ xd # rd)) s)) \<and>
    (os_makedirs p (py_print (''CREATE: '' @ render p) s) = Inl (OSError e, s') \<and> e \<noteq> EEXIST \<longrightarrow>
       mkdir_p p s = Inl (OSError e, s')) \<and>
    (os_makedirs p (py_print (''CREATE: '' @ render p) s) = Inr s' \<longrightarrow> mkdir_p p s = Inr s')"
proof (intro conjI impI)
  assume "os_path_exists (fs s) p"
  then show "mkdir_p p s = Inr (py_print (''CREATE: '' @ render p) s)"
    by (rule mkdir_p_exists[OF assms])
next
  assume f: "stat (fs s) qf = Some (File b)"
  let ?s0 = "py_print (''CREATE: '' @ render (qf @ xf # rf)) s"
  have "os_makedirs (qf @ xf # rf) ?s0 = Inl (OSError ENOTDIR, ?s0)"
    by (rule os_makedirs_below_file[where b = b]) (use assms f in simp_all)
  then show "mkdir_p (qf @ xf # rf) s = Inl (OSError ENOTDIR, ?s0)"
    by (simp add: mkdir_p_def)
next
  assume d: "stat (fs s) qd = Some (Dir False) \<and> stat (fs s) (qd @ [xd]) = None"
  let ?s0 = "py_print (''CREATE: '' @ render (qd @ xd # rd)) s"
  have "os_makedirs (qd @ xd # rd) ?s0 = Inl (OSError EACCES, ?s0)"
    by (rule os_makedirs_denied) (use assms d in simp_all)
  then show "mkdir_p (qd @ xd # rd) s = Inl (OSError EACCES, ?s0)"
    by (simp add: mkdir_p_def)
qed (simp_all add: mkdir_p_def)

theorem mkdir_p_outcomes_witness:
  "wf_fs (fs demo) \<and>
   mkdir_p [''srv'', ''locked''] demo = Inr (py_print ''CREATE: /srv/locked'' demo) \<and>
   mkdir_p [''srv'', ''notes'', ''a'', ''b''] demo =
     Inl (OSError ENOTDIR, py_print ''CREATE: /srv/notes/a/b'' demo) \<and>
   mkdir_p [''srv'', ''locked'', ''a'', ''b''] demo =
     Inl (OSError EACCES, py_print ''CREATE: /srv/locked/a/b'' demo) \<and>
   mkdir_p [''srv'', ''new''] demo =
     Inr (commit (fs demo @ [([''srv'', ''new''], Dir True)]) (py_print ''CREATE: /srv/new'' demo))"
proof -
  have e: "os_makedirs [''srv'', ''new''] (py_print (''CREATE: '' @ render [''srv'', ''new'']) demo) =
      Inr (commit (fs demo @ [([''srv'', ''new''], Dir True)]) (py_print ''CREATE: /srv/new'' demo))"
    by (simp add: os_makedirs.simps os_mkdir_def demo_def stat_def os_path_exists_def
        py_print_def commit_def render_def)
  show ?thesis
    using wf_demo e
      mkdir_p_outcomes[OF wf_demo, of "[''srv'', ''locked'']" "[''srv'', ''notes'']" "''n''" "''a''"
        "[''b'']" "[''srv'', ''locked'']" "''a''" "[''b'']"]
      mkdir_p_outcomes[OF wf_demo, of "[''srv'', ''new'']" "[]" "[]" "[]" "[]" "[]" "[]" "[]" ENOENT
        "commit (fs demo @ [([''srv'', ''new''], Dir True)]) (py_print ''CREATE: /srv/new'' demo)"]
    by (simp add: demo_def stat_def os_path_exists_def render_def)
qed

text \<open>
  C2 as stated fails where the path itself is a regular file:
  \<^verbatim>\<open>os.makedirs\<close> fails with \<^verbatim>\<open>EEXIST\<close>, the path is not a
  directory, and \<open>mkdir_p\<close> returns without raising.
\<close>

theorem mkdir_p_regular_file_counterexample:
  "os_path_isfile (fs demo) [''srv'', ''notes''] \<and>
   \<not> os_path_isdir (fs demo) [''srv'', ''notes''] \<and>
   os_makedirs [''srv'', ''notes''] (py_print ''CREATE: /srv/notes'' demo) =
     Inl (OSError EEXIST, py_print ''CREATE: /srv/notes'' demo) \<and>
   mkdir_p [''srv'', ''notes''] demo = Inr (py_print ''CREATE: /srv/notes'' demo)"
  by (simp add: mkdir_p_def os_makedirs.simps os_mkdir_def demo_def stat_def os_path_exists_def
      os_path_isfile_def os_path_isdir_def py_print_def render_def)

text \<open>
  C6, in the form that holds of the code. On a well-formed filesystem, whenever a call
  of \<open>mkdir_p\<close> returns without raising, a second call on the same path right after
  it returns without raising too and leaves the filesystem as the first call left it.
  When the path was missing, the first call made it a directory; when it existed, as a
  directory or as a regular file, the first call changed nothing in the filesystem (a
  regular file stays a regular file and no directory is made). Every call, whatever its
  outcome, appends exactly the line \<^verbatim>\<open>CREATE: <path>\<close> to the trace.
\<close>

theorem mkdir_p_idempotent:
  assumes "wf_fs (fs s)"
  shows "out (state_of (mkdir_p p s)) = out s @ [''CREATE: '' @ render p] \<and>
    (mkdir_p p s = Inr s1 \<longrightarrow>
       mkdir_p p s1 = Inr (py_print (''CREATE: '' @ render p) s1) \<and>
       (\<not> os_path_exists (fs s) p \<longrightarrow> stat (fs s1) p = Some (Dir True)) \<and>
       (os_path_exists (fs s) p \<longrightarrow> fs s1 = fs s))"
proof (intro conjI impI)
  show "out (state_of (mkdir_p p s)) = out s @ [''CREATE: '' @ render p]"
    by (rule mkdir_p_out)
next
  assume m: "mkdir_p p s = Inr s1"
  have "wf_fs (fs s1)" using mkdir_p_wf_fs[OF assms, of p] m by simp
  then show "mkdir_p p s1 = Inr (py_print (''CREATE: '' @ render p) s1)"
    using mkdir_p_Inr_exists[OF m] by (rule mkdir_p_exists)
next
  assume "mkdir_p p s = Inr s1" "\<not> os_path_exists (fs s) p"
  then show "stat (fs s1) p = Some (Dir True)" by (rule mkdir_p_Inr_created)
next
  assume m: "mkdir_p p s = Inr s1" and e: "os_path_exists (fs s) p"
  from mkdir_p_exists[OF assms e] m show "fs s1 = fs s" by auto
qed

theorem mkdir_p_idempotent_witness:
  "wf_fs (fs demo) \<and>
   mkdir_p [''srv'', ''new''] demo =
     Inr (commit (fs demo @ [([''srv'', ''new''], Dir True)]) (py_print ''CREATE: /srv/new'' demo)) \<and>
   mkdir_p [''srv'', ''new'']
       (commit (fs demo @ [([''srv'', ''new''], Dir True)]) (py_print ''CREATE: /srv/new'' demo)) =
     Inr (py_print ''CREATE: /srv/new''
       (commit (fs demo @ [([''srv'', ''new''], Dir True)]) (py_print ''CREATE: /srv/new'' demo))) \<and>
   out (state_of (mkdir_p [''srv'', ''new''] demo)) = [''CREATE: /srv/new''] \<and>
   os_path_exists (fs demo) [''srv'', ''locked''] \<and>
   mkdir_p [''srv'', ''locked''] demo = Inr (py_print ''CREATE: /srv/locked'' demo) \<and>
   mkdir_p [''srv'', ''locked''] (py_print ''CREATE: /srv/locked'' demo) =
     Inr (py_print ''CREATE: /srv/locked'' (py_print ''CREATE: /srv/locked'' demo)) \<and>
   fs (py_print ''CREATE: /srv/locked'' demo) = fs demo"
proof -
  have e: "mkdir_p [''srv'', ''new''] demo =
      Inr (commit (fs demo @ [([''srv'', ''new''], Dir True)]) (py_print ''CREATE: /srv/new'' demo))"
    by (simp add: mkdir_p_def os_makedirs.simps os_mkdir_def demo_def stat_def os_path_exists_def
        py_print_def commit_def render_def)
  have l: "mkdir_p [''srv'', ''locked''] demo = Inr (py_print ''CREATE: /srv/locked'' demo)"
    by (simp add: mkdir_p_def os_makedirs.simps os_mkdir_def demo_def stat_def os_path_exists_def
        py_print_def commit_def render_def)
  have x: "os_path_exists (fs demo) [''srv'', ''locked'']"
    by (simp add: demo_def stat_def os_path_exists_def)
  show ?thesis
    using wf_demo e l x
      mkdir_p_idempotent[OF wf_demo, of "[''srv'', ''new'']"
        "commit (fs demo @ [([''srv'', ''new''], Dir True)]) (py_print ''CREATE: /srv/new'' demo)"]
      mkdir_p_idempotent[OF wf_demo, of "[''srv'', ''locked'']"
        "py_print ''CREATE: /srv/locked'' demo"]
    by (simp add: demo_def render_def)
qed

text \<open>
  C6 as stated fails. With a regular file at the path both calls return without
  raising and no directory is made: the path is a regular file before and after. And
  where the first call raises, here because a proper ancestor is a regular file, the
  second call raises as well.
\<close>

theorem mkdir_p_twice_counterexample:
  "os_path_isfile (fs demo) [''srv'', ''notes''] \<and>
   mkdir_p [''srv'', ''notes''] demo = Inr (py_print ''CREATE: /srv/notes'' demo) \<and>
   mkdir_p [''srv'', ''notes''] (py_print ''CREATE: /srv/notes'' demo) =
     Inr (py_print ''CREATE: /srv/notes'' (py_print ''CREATE: /srv/notes'' demo)) \<and>
   \<not> os_path_isdir (fs (py_print ''CREATE: /srv/notes'' (py_print ''CREATE: /srv/notes'' demo)))
       [''srv'', ''notes''] \<and>
   mkdir_p [''srv'', ''notes'', ''a''] demo =
     Inl (OSError ENOTDIR, py_print ''CREATE: /srv/notes/a'' demo) \<and>
   mkdir_p [''srv'', ''notes'', ''a''] (py_print ''CREATE: /srv/notes/a'' demo) =
     Inl (OSError ENOTDIR,
       py_print ''CREATE: /srv/notes/a'' (py_print ''CREATE: /srv/notes/a'' demo))"
  by (simp add: mkdir_p_def os_makedirs.simps os_mkdir_def demo_def stat_def os_path_exists_def
      os_path_isfile_def os_path_isdir_def py_print_def render_def)


section \<open>The run\<close>

text \<open>
  C10. A value of \<^verbatim>\<open>--build\<close> outside the five documented ones is accepted
  by the parser. The run then clears and creates the output directory and does nothing
  else: when that succeeds the output directory is an empty directory; with
  \<^verbatim>\<open>none\<close> in its place the run only clears the output directory.
\<close>

theorem unknown_build_profile:
  assumes "b \<notin> set [''full'', ''core'', ''engine'', ''layout'', ''none'']"
    and "v \<in> set [''windows'', ''linux'', ''mac'']"
  shows "parse_args \<lparr>given_os = Some v, given_build = Some b, given_clean = c\<rparr> =
           Inr \<lparr>os = v, build = b, clean = c\<rparr> \<and>
    script n base \<lparr>os = v, build = b, clean = c\<rparr> s =
      Some (prepare_output base \<lparr>os = v, build = b, clean = c\<rparr> s) \<and>
    script n base \<lparr>os = v, build = ''none'', clean = c\<rparr> s =
      Some (clean_output base \<lparr>os = v, build = b, clean = c\<rparr> s) \<and>
    (wf_fs (fs s) \<and> prepare_output base \<lparr>os = v, build = b, clean = c\<rparr> s = Inr s' \<longrightarrow>
       stat (fs s') (output_path base \<lparr>os = v, build = b, clean = c\<rparr>) = Some (Dir True) \<and>
       (strict_prefix (output_path base \<lparr>os = v, build = b, clean = c\<rparr>) q \<longrightarrow>
          stat (fs s') q = None))"
proof (intro conjI impI)
  let ?a = "\<lparr>os = v, build = b, clean = c\<rparr>"
  let ?none = "\<lparr>os = v, build = ''none'', clean = c\<rparr>"
  from assms(2) show "parse_args \<lparr>given_os = Some v, given_build = Some b, given_clean = c\<rparr> = Inr ?a"
    by (simp add: parse_args_def)
  have nw: "\<not> wants_executable ?a" "\<not> wants_executable ?none"
    using assms(1) by (simp_all add: wants_executable_def)
  have ca: "copy_assets n base ?a t = Some (Inr t)" "copy_assets n base ?none t = Some (Inr t)" for t
    using assms(1) by (simp_all add: copy_assets_def)
  show "script n base ?a s = Some (prepare_output base ?a s)"
    by (cases "prepare_output base ?a s")
       (simp_all add: script_def and_then_opt_def ca place_executable_skipped[OF nw(1)])
  have c_eq: "clean_output base ?none s = clean_output base ?a s"
    by (simp add: clean_output_def output_path_def hasattr_clean_def)
  have e: "ensure_output base ?none t = Inr t" for t
    by (simp add: ensure_output_def)
  have "prepare_output base ?none s = clean_output base ?a s"
    by (cases "clean_output base ?a s") (simp_all add: prepare_output_def and_then_def c_eq e)
  then show "script n base ?none s = Some (clean_output base ?a s)"
    by (cases "clean_output base ?a s")
       (simp_all add: script_def and_then_opt_def ca place_executable_skipped[OF nw(2)])
next
  let ?a = "\<lparr>os = v, build = b, clean = c\<rparr>"
  assume h: "wf_fs (fs s) \<and> prepare_output base ?a s = Inr s'"
  have bn: "build ?a \<noteq> ''none''" using assms(1) by simp
  from h show "stat (fs s') (output_path base ?a) = Some (Dir True)"
    using prepare_output_fresh(1)[OF _ bn] by blast
  assume "strict_prefix (output_path base ?a) q"
  with h show "stat (fs s') q = None"
    using prepare_output_fresh(2)[OF _ bn] by blast
qed

theorem unknown_build_profile_witness:
  "''fast'' \<notin> set [''full'', ''core'', ''engine'', ''layout'', ''none''] \<and>
   ''linux'' \<in> set [''windows'', ''linux'', ''mac''] \<and>
   parse_args \<lparr>given_os = Some ''linux'', given_build = Some ''fast'', given_clean = False\<rparr> =
     Inr \<lparr>os = ''linux'', build = ''fast'', clean = False\<rparr> \<and>
   script 0 [''repo''] \<lparr>os = ''linux'', build = ''fast'', clean = False\<rparr> checkout =
     Some (prepare_output [''repo''] \<lparr>os = ''linux'', build = ''fast'', clean = False\<rparr> checkout) \<and>
   wf_fs (fs checkout) \<and>
   stat (fs (state_of (prepare_output [''repo'']
       \<lparr>os = ''linux'', build = ''fast'', clean = False\<rparr> checkout)))
     [''repo'', ''Artifacts'', ''linux'', ''RetroFE''] = Some (Dir True) \<and>
   stat (fs (state_of (prepare_output [''repo'']
       \<lparr>os = ''linux'', build = ''fast'', clean = False\<rparr> checkout)))
     [''repo'', ''Artifacts'', ''linux'', ''RetroFE'', ''old.txt''] = None"
proof -
  let ?a = "\<lparr>os = ''linux'', build = ''fast'', clean = False\<rparr>"
  have m: "''fast'' \<notin> set [''full'', ''core'', ''engine'', ''layout'', ''none'']"
    "''linux'' \<in> set [''windows'', ''linux'', ''mac'']" by simp_all
  have "\<not> isl (prepare_output [''repo''] ?a checkout)" by code_simp
  then have p: "prepare_output [''repo''] ?a checkout =
      Inr (state_of (prepare_output [''repo''] ?a checkout))" by (rule Inr_state_of)
  have o: "output_path [''repo''] ?a = [''repo'', ''Artifacts'', ''linux'', ''RetroFE'']"
    by (simp add: output_path_def)
  have sp: "strict_prefix [''repo'', ''Artifacts'', ''linux'', ''RetroFE'']
      [''repo'', ''Artifacts'', ''linux'', ''RetroFE'', ''old.txt'']" by simp
  show ?thesis
    using m wf_checkout p sp
      unknown_build_profile[OF m, of False 0 "[''repo'']" checkout
        "state_of (prepare_output [''repo''] ?a checkout)"
        "[''repo'', ''Artifacts'', ''linux'', ''RetroFE'', ''old.txt'']"]
    unfolding o by blast
qed

text \<open>
  C1 does not hold of the code: the test in front of the removal is
  \<^verbatim>\<open>hasattr(args, 'clean')\<close>, which holds of every parsed command line, so an
  existing output directory is removed also when \<^verbatim>\<open>--clean\<close> is absent.
  Here \<^verbatim>\<open>--os linux --build none\<close> without \<^verbatim>\<open>--clean\<close> runs on a
  checkout holding the output of an earlier run: the run exits normally and the
  output directory, with the file in it, is gone.
\<close>

theorem clean_flag_ignored:
  "parse_args \<lparr>given_os = Some ''linux'', given_build = Some ''none'', given_clean = False\<rparr> =
     Inr \<lparr>os = ''linux'', build = ''none'', clean = False\<rparr> \<and>
   clean \<lparr>os = ''linux'', build = ''none'', clean = False\<rparr> = False \<and>
   os_path_isdir (fs checkout) [''repo'', ''Artifacts'', ''linux'', ''RetroFE''] \<and>
   os_path_isfile (fs checkout) [''repo'', ''Artifacts'', ''linux'', ''RetroFE'', ''old.txt''] \<and>
   map_option isl (script 0 [''repo''] \<lparr>os = ''linux'', build = ''none'', clean = False\<rparr> checkout) =
     Some False \<and>
   map_option (\<lambda>r. os_path_exists (fs (state_of r)) [''repo'', ''Artifacts'', ''linux'', ''RetroFE''])
     (script 0 [''repo''] \<lparr>os = ''linux'', build = ''none'', clean = False\<rparr> checkout) =
     Some False \<and>
   map_option (\<lambda>r. os_path_exists (fs (state_of r))
       [''repo'', ''Artifacts'', ''linux'', ''RetroFE'', ''old.txt''])
     (script 0 [''repo''] \<lparr>os = ''linux'', build = ''none'', clean = False\<rparr> checkout) =
     Some False"
  by code_simp

text \<open>
  C7. In the \<^verbatim>\<open>layout\<close> profile, for each of the three operating systems, a
  missing \<^verbatim>\<open>layouts\<close> directory is skipped. Provided the output directory
  could be cleared and created: with both missing the run exits normally, and below
  the output directory there is then the empty directory \<^verbatim>\<open>layouts\<close> and
  nothing else; with one missing the run is the copy of the other one into that empty
  directory.
\<close>

theorem layout_profile_skips_missing:
  assumes "build a = ''layout''" "os a \<in> set [''windows'', ''linux'', ''mac'']"
    and "os_path base a = Some osp" "wf_fs (fs s)" "prepare_output base a s = Inr s0"
    and "s1 = commit (AList.update (output_path base a @ [''layouts'']) (Dir True) (fs s0)) s0"
  shows "(\<not> os_path_exists (fs s) (common_path base @ [''layouts'']) \<and>
      \<not> os_path_exists (fs s) (osp @ [''layouts'']) \<longrightarrow>
        script n base a s = Some (Inr s1) \<and>
        stat (fs s1) (output_path base a @ [''layouts'']) = Some (Dir True) \<and>
        (prefix (output_path base a) q \<longrightarrow>
           os_path_exists (fs s1) q =
             (q = output_path base a \<or> q = output_path base a @ [''layouts'']))) \<and>
    (\<not> os_path_exists (fs s) (common_path base @ [''layouts'']) \<and>
      os_path_exists (fs s) (osp @ [''layouts'']) \<longrightarrow>
        script n base a s =
          copytree n (osp @ [''layouts'']) (output_path base a @ [''layouts'']) s1) \<and>
    (os_path_exists (fs s) (common_path base @ [''layouts'']) \<and>
      \<not> os_path_exists (fs s) (osp @ [''layouts'']) \<longrightarrow>
        script n base a s =
          copytree n (common_path base @ [''layouts'']) (output_path base a @ [''layouts'']) s1)"
proof -
  let ?out = "output_path base a"
  let ?dest = "?out @ [''layouts'']"
  let ?cl = "common_path base @ [''layouts'']"
  let ?ol = "osp @ [''layouts'']"
  have bn: "build a \<noteq> ''none''" using assms(1) by simp
  note fresh = prepare_output_fresh[OF assms(4) bn assms(5)]
  from os_path_Some[OF assms(3)] obtain d where osp: "osp = base @ [''Package'', ''Environment'', d]"
    by blast
  have cl: "?cl = base @ ''Package'' # [''Environment'', ''Common'', ''layouts'']"
    and ol: "?ol = base @ ''Package'' # [''Environment'', d, ''layouts'']"
    by (simp_all add: common_path_def osp)
  have t0: "touches_only ?out (fs s) (fs s0)"
    using prepare_output_touches[of base a s] assms(5) by simp
  have d0: "stat (fs s0) ?dest = None" by (rule fresh(2)) (simp add: strict_prefix_def)
  have mk: "os_makedirs ?dest s0 = Inr s1"
    unfolding assms(6) by (rule os_makedirs_in_dir) (simp_all add: fresh(1) d0)
  have st1: "stat (fs s1) q = (if q = ?dest then Some (Dir True) else stat (fs s0) q)" for q
    by (simp add: assms(6) stat_update)
  have same0: "stat (fs s0) (base @ ''Package'' # xs) = stat (fs s) (base @ ''Package'' # xs)" for xs
    by (rule stat_outside_output'[OF t0]) simp
  have ne: "base @ ''Package'' # xs \<noteq> ?dest" for xs
    by (simp add: output_path_def)
  have same1: "stat (fs s1) (base @ ''Package'' # xs) = stat (fs s) (base @ ''Package'' # xs)" for xs
    using same0[of xs] ne[of xs] by (simp add: st1)
  have ex1: "os_path_exists (fs s1) ?cl = os_path_exists (fs s) ?cl"
    "os_path_exists (fs s1) ?ol = os_path_exists (fs s) ?ol"
    unfolding cl ol exists_iff by (simp_all only: same1)
  have after: "os_path_exists (fs s2) ?ol = os_path_exists (fs s) ?ol"
    if "copytree n ?cl ?dest s1 = Some (Inr s2)" for s2
  proof -
    have "touches_only ?dest (fs s1) (fs s2)" using copytree_touches[OF that] by simp
    then have "stat (fs s2) ?ol = stat (fs s1) ?ol"
      unfolding ol by (rule stat_outside_output) simp
    then show ?thesis using ex1(2) by (simp add: exists_iff)
  qed
  have nw: "\<not> wants_executable a" using assms(1) by (simp add: wants_executable_def)
  have ca: "copy_assets n base a s0 = build_layout n base a s0"
    using assms(1) by (simp add: copy_assets_def)
  have bl: "build_layout n base a s0 =
      and_then_opt
        (if os_path_exists (fs s) ?cl then copytree n ?cl ?dest s1 else Some (Inr s1))
        (\<lambda>s2. if os_path_exists (fs s2) ?ol then copytree n ?ol ?dest s2 else Some (Inr s2))"
  proof -
    have e0: "\<not> os_path_exists (fs s0) ?dest" using d0 by (simp add: exists_iff)
    show ?thesis by (simp add: build_layout_def assms(3) e0 mk ex1)
  qed
  have pe: "place_executable n base a = (\<lambda>s. Some (Inr s))"
    by (rule ext) (simp add: place_executable_skipped[OF nw])
  have sc: "script n base a s = build_layout n base a s0"
    by (simp add: script_prepared[OF assms(5)] ca pe)
  show ?thesis
  proof (intro conjI impI)
    assume h: "\<not> os_path_exists (fs s) ?cl \<and> \<not> os_path_exists (fs s) ?ol"
    then show "script n base a s = Some (Inr s1)"
      by (simp add: sc bl ex1)
    show "stat (fs s1) ?dest = Some (Dir True)" by (simp add: st1)
    assume p: "prefix ?out q"
    show "os_path_exists (fs s1) q = (q = ?out \<or> q = ?dest)"
    proof (cases "q = ?out \<or> q = ?dest")
      case True
      then show ?thesis using fresh(1) by (auto simp: exists_iff st1)
    next
      case False
      with p have "strict_prefix ?out q" by (auto simp: strict_prefix_def)
      from fresh(2)[OF this] False show ?thesis by (simp add: exists_iff st1)
    qed
  next
    assume "\<not> os_path_exists (fs s) ?cl \<and> os_path_exists (fs s) ?ol"
    then show "script n base a s = copytree n ?ol ?dest s1"
      by (simp add: sc bl ex1)
  next
    assume h: "os_path_exists (fs s) ?cl \<and> \<not> os_path_exists (fs s) ?ol"
    show "script n base a s = copytree n ?cl ?dest s1"
      using h after by (auto simp: sc bl and_then_opt_def split: option.splits sum.splits)
  qed
qed

theorem layout_profile_skips_missing_witness:
  "wf_fs (fs checkout) \<and>
   \<not> os_path_exists (fs checkout) (common_path [''repo''] @ [''layouts'']) \<and>
   \<not> os_path_exists (fs checkout) [''repo'', ''Package'', ''Environment'', ''Linux'', ''layouts''] \<and>
   script 0 [''repo''] \<lparr>os = ''linux'', build = ''layout'', clean = False\<rparr> checkout =
     Some (Inr (commit
       (AList.update [''repo'', ''Artifacts'', ''linux'', ''RetroFE'', ''layouts''] (Dir True)
          (fs (state_of (prepare_output [''repo'']
             \<lparr>os = ''linux'', build = ''layout'', clean = False\<rparr> checkout))))
       (state_of (prepare_output [''repo'']
          \<lparr>os = ''linux'', build = ''layout'', clean = False\<rparr> checkout)))) \<and>
   \<not> os_path_exists
       (fs (commit
         (AList.update [''repo'', ''Artifacts'', ''linux'', ''RetroFE'', ''layouts''] (Dir True)
            (fs (state_of (prepare_output [''repo'']
               \<lparr>os = ''linux'', build = ''layout'', clean = False\<rparr> checkout))))
         (state_of (prepare_output [''repo'']
            \<lparr>os = ''linux'', build = ''layout'', clean = False\<rparr> checkout))))
       [''repo'', ''Artifacts'', ''linux'', ''RetroFE'', ''old.txt''] \<and>
   wf_fs (fs themed_common) \<and>
   os_path_exists (fs themed_common) (common_path [''repo''] @ [''layouts'']) \<and>
   \<not> os_path_exists (fs themed_common)
       [''repo'', ''Package'', ''Environment'', ''Linux'', ''layouts''] \<and>
   script 2 [''repo''] \<lparr>os = ''linux'', build = ''layout'', clean = False\<rparr> themed_common =
     copytree 2 (common_path [''repo''] @ [''layouts''])
       [''repo'', ''Artifacts'', ''linux'', ''RetroFE'', ''layouts'']
       (commit
         (AList.update [''repo'', ''Artifacts'', ''linux'', ''RetroFE'', ''layouts''] (Dir True)
            (fs (state_of (prepare_output [''repo'']
               \<lparr>os = ''linux'', build = ''layout'', clean = False\<rparr> themed_common))))
         (state_of (prepare_output [''repo'']
            \<lparr>os = ''linux'', build = ''layout'', clean = False\<rparr> themed_common))) \<and>
   map_option (\<lambda>r. stat (fs (state_of r))
        [''repo'', ''Artifacts'', ''linux'', ''RetroFE'', ''layouts'', ''main.xml''])
     (script 2 [''repo''] \<lparr>os = ''linux'', build = ''layout'', clean = False\<rparr> themed_common) =
     Some (Some (File ''<layout/>'')) \<and>
   wf_fs (fs themed_windows) \<and>
   \<not> os_path_exists (fs themed_windows) (common_path [''repo''] @ [''layouts'']) \<and>
   os_path_exists (fs themed_windows)
       [''repo'', ''Package'', ''Environment'', ''Windows'', ''layouts''] \<and>
   script 2 [''repo''] \<lparr>os = ''windows'', build = ''layout'', clean = False\<rparr> themed_windows =
     copytree 2 [''repo'', ''Package'', ''Environment'', ''Windows'', ''layouts'']
       [''repo'', ''Artifacts'', ''windows'', ''RetroFE'', ''layouts'']
       (commit
         (AList.update [''repo'', ''Artifacts'', ''windows'', ''RetroFE'', ''layouts''] (Dir True)
            (fs (state_of (prepare_output [''repo'']
               \<lparr>os = ''windows'', build = ''layout'', clean = False\<rparr> themed_windows))))
         (state_of (prepare_output [''repo'']
            \<lparr>os = ''windows'', build = ''layout'', clean = False\<rparr> themed_windows))) \<and>
   map_option (\<lambda>r. stat (fs (state_of r))
        [''repo'', ''Artifacts'', ''windows'', ''RetroFE'', ''layouts'', ''win.xml''])
     (script 2 [''repo''] \<lparr>os = ''windows'', build = ''layout'', clean = False\<rparr> themed_windows) =
     Some (Some (File ''<win/>''))"
proof -
  let ?a = "\<lparr>os = ''linux'', build = ''layout'', clean = False\<rparr>"
  let ?w = "\<lparr>os = ''windows'', build = ''layout'', clean = False\<rparr>"
  have i: "\<not> isl (prepare_output [''repo''] ?a checkout)"
    "\<not> isl (prepare_output [''repo''] ?a themed_common)"
    "\<not> isl (prepare_output [''repo''] ?w themed_windows)" by code_simp+
  note p = i[THEN Inr_state_of]
  have o: "output_path [''repo''] ?a = [''repo'', ''Artifacts'', ''linux'', ''RetroFE'']"
    "output_path [''repo''] ?w = [''repo'', ''Artifacts'', ''windows'', ''RetroFE'']"
    by (simp_all add: output_path_def)
  have osp: "os_path [''repo''] ?a = Some [''repo'', ''Package'', ''Environment'', ''Linux'']"
    "os_path [''repo''] ?w = Some [''repo'', ''Package'', ''Environment'', ''Windows'']"
    by (simp_all add: os_path_def)
  have c: "\<not> os_path_exists (fs checkout) (common_path [''repo''] @ [''layouts''])"
    "\<not> os_path_exists (fs checkout) [''repo'', ''Package'', ''Environment'', ''Linux'', ''layouts'']"
    "os_path_exists (fs themed_common) (common_path [''repo''] @ [''layouts''])"
    "\<not> os_path_exists (fs themed_common)
       [''repo'', ''Package'', ''Environment'', ''Linux'', ''layouts'']"
    "\<not> os_path_exists (fs themed_windows) (common_path [''repo''] @ [''layouts''])"
    "os_path_exists (fs themed_windows)
       [''repo'', ''Package'', ''Environment'', ''Windows'', ''layouts'']"
    by code_simp+
  have b: "build ?a = ''layout''" "os ?a \<in> set [''windows'', ''linux'', ''mac'']"
    "build ?w = ''layout''" "os ?w \<in> set [''windows'', ''linux'', ''mac'']" by simp_all
  have r: "map_option (\<lambda>r. stat (fs (state_of r))
        [''repo'', ''Artifacts'', ''linux'', ''RetroFE'', ''layouts'', ''main.xml''])
     (script 2 [''repo''] ?a themed_common) = Some (Some (File ''<layout/>''))"
    "map_option (\<lambda>r. stat (fs (state_of r))
        [''repo'', ''Artifacts'', ''windows'', ''RetroFE'', ''layouts'', ''win.xml''])
     (script 2 [''repo''] ?w themed_windows) = Some (Some (File ''<win/>''))"
    by code_simp+
  note t1 = layout_profile_skips_missing[OF b(1,2) osp(1) wf_checkout p(1) refl, of 0
        "[''repo'', ''Artifacts'', ''linux'', ''RetroFE'', ''old.txt'']", unfolded o]
  note t2 = layout_profile_skips_missing[OF b(1,2) osp(1) wf_themed(1) p(2) refl, of 2 "[]",
        unfolded o]
  note t3 = layout_profile_skips_missing[OF b(3,4) osp(2) wf_themed(2) p(3) refl, of 2 "[]",
        unfolded o]
  have k1: "script 0 [''repo''] ?a checkout =
     Some (Inr (commit
       (AList.update [''repo'', ''Artifacts'', ''linux'', ''RetroFE'', ''layouts''] (Dir True)
          (fs (state_of (prepare_output [''repo''] ?a checkout))))
       (state_of (prepare_output [''repo''] ?a checkout))))"
    "\<not> os_path_exists
       (fs (commit
         (AList.update [''repo'', ''Artifacts'', ''linux'', ''RetroFE'', ''layouts''] (Dir True)
            (fs (state_of (prepare_output [''repo''] ?a checkout))))
         (state_of (prepare_output [''repo''] ?a checkout))))
       [''repo'', ''Artifacts'', ''linux'', ''RetroFE'', ''old.txt'']"
    using t1 c(1,2) by simp_all
  have k2: "script 2 [''repo''] ?a themed_common =
     copytree 2 (common_path [''repo''] @ [''layouts''])
       [''repo'', ''Artifacts'', ''linux'', ''RetroFE'', ''layouts'']
       (commit
         (AList.update [''repo'', ''Artifacts'', ''linux'', ''RetroFE'', ''layouts''] (Dir True)
            (fs (state_of (prepare_output [''repo''] ?a themed_common))))
         (state_of (prepare_output [''repo''] ?a themed_common)))"
    using t2 c(3,4) by simp
  have k3: "script 2 [''repo''] ?w themed_windows =
     copytree 2 [''repo'', ''Package'', ''Environment'', ''Windows'', ''layouts'']
       [''repo'', ''Artifacts'', ''windows'', ''RetroFE'', ''layouts'']
       (commit
         (AList.update [''repo'', ''Artifacts'', ''windows'', ''RetroFE'', ''layouts''] (Dir True)
            (fs (state_of (prepare_output [''repo''] ?w themed_windows))))
         (state_of (prepare_output [''repo''] ?w themed_windows)))"
    using t3 c(5,6) by simp
  show ?thesis
    using wf_checkout wf_themed c r k1 k2 k3 by (intro conjI)
qed

text \<open>
  C5. On mac with profile \<^verbatim>\<open>full\<close>, \<^verbatim>\<open>core\<close> or
  \<^verbatim>\<open>engine\<close>, when neither \<^verbatim>\<open>RetroFE.app\<close> nor
  \<^verbatim>\<open>retrofe\<close> exists in the release directory, the placement step, in
  whatever state it is reached, prints the error line, raises nothing and changes
  nothing in the filesystem. When the clearing of the output directory returned and the
  asset step raises nothing, the run returns, exits normally and its last action is the
  printing of the error line; in the profile \<^verbatim>\<open>full\<close> this is shown for
  every recursion bound that reaches the whole of the two asset trees, and the asset
  step is then shown to return. The output directory is a directory at the end, and in
  the profiles \<^verbatim>\<open>core\<close> and \<^verbatim>\<open>engine\<close> it is empty.
\<close>

theorem mac_without_executable:
  assumes "os a = ''mac''" "wants_executable a" "wf_fs (fs s)"
    and "\<not> os_path_exists (fs s) (release_dir base @ [''RetroFE.app''])"
    and "\<not> os_path_exists (fs s) (release_dir base @ [''retrofe''])"
    and "prepare_output base a s = Inr s0"
    and "build a = ''full'' \<longrightarrow>
           shallow (fs s) (common_path base) n \<and>
           shallow (fs s) (base @ [''Package'', ''Environment'', ''MacOS'']) n"
    and "\<forall>e t. copy_assets n base a s0 \<noteq> Some (Inl (e, t))"
  shows "(\<exists>s1. copy_assets n base a s0 = Some (Inr s1) \<and>
      script n base a s =
        Some (Inr (py_print
          ''Error: Neither RetroFE.app nor retrofe binary found in Release folder.'' s1)) \<and>
      os_path_isdir (fs s1) (output_path base a) \<and>
      (build a \<noteq> ''full'' \<longrightarrow>
         s1 = s0 \<and> (strict_prefix (output_path base a) q \<longrightarrow> \<not> os_path_exists (fs s1) q))) \<and>
    (\<not> os_path_exists (fs t) (release_dir base @ [''RetroFE.app'']) \<and>
     \<not> os_path_exists (fs t) (release_dir base @ [''retrofe'']) \<longrightarrow>
       place_executable n base a t =
         Some (Inr (py_print
           ''Error: Neither RetroFE.app nor retrofe binary found in Release folder.'' t)))"
proof -
  have bn: "build a \<noteq> ''none''" and nl: "build a \<noteq> ''layout''"
    using assms(2) by (auto simp: wants_executable_def)
  note fresh = prepare_output_fresh[OF assms(3) bn assms(6)]
  have t0: "touches_only (output_path base a) (fs s) (fs s0)"
    using prepare_output_touches[of base a s] assms(6) by simp
  have osp: "os_path base a = Some osp \<longleftrightarrow> osp = base @ [''Package'', ''Environment'', ''MacOS'']"
    for osp using assms(1) by (auto simp: os_path_def)
  have "\<exists>r. copy_assets n base a s0 = Some r"
    by (rule copy_assets_returns[OF nl _ t0]) (use assms(7) osp in auto)
  then obtain r where r: "copy_assets n base a s0 = Some r" by blast
  with assms(8) obtain s1 where s1: "copy_assets n base a s0 = Some (Inr s1)"
    by (cases r) auto
  have pl: "place_executable n base a t = Some (Inr (py_print
        ''Error: Neither RetroFE.app nor retrofe binary found in Release folder.'' t))"
    if "\<not> os_path_exists (fs t) (release_dir base @ [''RetroFE.app''])"
      "\<not> os_path_exists (fs t) (release_dir base @ [''retrofe''])" for t
    using assms(1,2) that by (simp add: place_executable_def place_mac_def)
  have t1: "touches_only (output_path base a) (fs s0) (fs s1)"
    using copy_assets_touches[OF s1] by simp
  have same: "stat (fs s1) (base @ ''RetroFE'' # xs) = stat (fs s) (base @ ''RetroFE'' # xs)" for xs
    using stat_outside_output'[OF t0, of "''RetroFE''" xs]
      stat_outside_output'[OF t1, of "''RetroFE''" xs] by simp
  have ne: "\<not> os_path_exists (fs s1) (release_dir base @ [''RetroFE.app''])"
    "\<not> os_path_exists (fs s1) (release_dir base @ [''retrofe''])"
    using assms(4,5) same[of "[''Build'', ''Release'', ''RetroFE.app'']"]
      same[of "[''Build'', ''Release'', ''retrofe'']"]
    by (simp_all add: exists_iff release_dir_def)
  have run: "script n base a s = Some (Inr (py_print
        ''Error: Neither RetroFE.app nor retrofe binary found in Release folder.'' s1))"
    by (simp add: script_prepared[OF assms(6)] s1 pl[OF ne])
  have dir: "os_path_isdir (fs s1) (output_path base a)"
    using copy_assets_keeps_dir[OF s1 fresh(1)] by (auto simp: isdir_iff)
  have core: "s1 = s0 \<and> (strict_prefix (output_path base a) q \<longrightarrow> \<not> os_path_exists (fs s1) q)"
    if nf: "build a \<noteq> ''full''"
  proof -
    from nf have "copy_assets n base a s0 = Some (Inr s0)"
      using nl by (auto simp: copy_assets_def)
    with s1 have s10: "s1 = s0" by simp
    then show ?thesis using fresh(2)[of q] by (auto simp: exists_iff)
  qed
  from s1 run dir core pl show ?thesis by blast
qed

theorem mac_without_executable_witness:
  "wants_executable \<lparr>os = ''mac'', build = ''full'', clean = False\<rparr> \<and>
   wf_fs (fs mac_checkout) \<and>
   \<not> os_path_exists (fs mac_checkout) (release_dir [''repo''] @ [''RetroFE.app'']) \<and>
   \<not> os_path_exists (fs mac_checkout) (release_dir [''repo''] @ [''retrofe'']) \<and>
   shallow (fs mac_checkout) (common_path [''repo'']) 3 \<and>
   shallow (fs mac_checkout) [''repo'', ''Package'', ''Environment'', ''MacOS''] 3 \<and>
   (\<exists>s1. script 3 [''repo''] \<lparr>os = ''mac'', build = ''full'', clean = False\<rparr> mac_checkout =
       Some (Inr (py_print
         ''Error: Neither RetroFE.app nor retrofe binary found in Release folder.'' s1)) \<and>
       os_path_isdir (fs s1) [''repo'', ''Artifacts'', ''mac'', ''RetroFE'']) \<and>
   wants_executable \<lparr>os = ''mac'', build = ''core'', clean = False\<rparr> \<and>
   wf_fs (fs checkout) \<and>
   \<not> os_path_exists (fs checkout) (release_dir [''repo''] @ [''RetroFE.app'']) \<and>
   \<not> os_path_exists (fs checkout) (release_dir [''repo''] @ [''retrofe'']) \<and>
   script 0 [''repo''] \<lparr>os = ''mac'', build = ''core'', clean = False\<rparr> checkout =
     Some (Inr (py_print
       ''Error: Neither RetroFE.app nor retrofe binary found in Release folder.''
       (state_of (prepare_output [''repo'']
          \<lparr>os = ''mac'', build = ''core'', clean = False\<rparr> checkout)))) \<and>
   os_path_isdir
     (fs (state_of (prepare_output [''repo'']
        \<lparr>os = ''mac'', build = ''core'', clean = False\<rparr> checkout)))
     [''repo'', ''Artifacts'', ''mac'', ''RetroFE''] \<and>
   \<not> os_path_exists
     (fs (state_of (prepare_output [''repo'']
        \<lparr>os = ''mac'', build = ''core'', clean = False\<rparr> checkout)))
     [''repo'', ''Artifacts'', ''mac'', ''RetroFE'', ''retrofe''] \<and>
   place_executable 0 [''repo''] \<lparr>os = ''mac'', build = ''core'', clean = False\<rparr> checkout =
     Some (Inr (py_print
       ''Error: Neither RetroFE.app nor retrofe binary found in Release folder.'' checkout))"
proof -
  let ?f = "\<lparr>os = ''mac'', build = ''full'', clean = False\<rparr>"
  let ?a = "\<lparr>os = ''mac'', build = ''core'', clean = False\<rparr>"
  let ?t0 = "state_of (prepare_output [''repo''] ?f mac_checkout)"
  let ?s0 = "state_of (prepare_output [''repo''] ?a checkout)"
  have "\<not> isl (prepare_output [''repo''] ?f mac_checkout)" by code_simp
  then have pf: "prepare_output [''repo''] ?f mac_checkout = Inr ?t0" by (rule Inr_state_of)
  have "\<not> isl (prepare_output [''repo''] ?a checkout)" by code_simp
  then have p: "prepare_output [''repo''] ?a checkout = Inr ?s0" by (rule Inr_state_of)
  have o: "output_path [''repo''] ?a = [''repo'', ''Artifacts'', ''mac'', ''RetroFE'']"
    "output_path [''repo''] ?f = [''repo'', ''Artifacts'', ''mac'', ''RetroFE'']"
    by (simp_all add: output_path_def)
  have w: "os ?a = ''mac''" "wants_executable ?a" "os ?f = ''mac''" "wants_executable ?f"
    by (simp_all add: wants_executable_def)
  have c: "\<not> os_path_exists (fs checkout) (release_dir [''repo''] @ [''RetroFE.app''])"
    "\<not> os_path_exists (fs checkout) (release_dir [''repo''] @ [''retrofe''])"
    by code_simp+
  have cf: "\<not> os_path_exists (fs mac_checkout) (release_dir [''repo''] @ [''RetroFE.app''])"
    "\<not> os_path_exists (fs mac_checkout) (release_dir [''repo''] @ [''retrofe''])"
    by code_simp+
  have sh: "shallow (fs mac_checkout) (common_path [''repo'']) 3"
    "shallow (fs mac_checkout) [''repo'', ''Package'', ''Environment'', ''MacOS''] 3"
    by code_simp+
  have shf: "build ?f = ''full'' \<longrightarrow> shallow (fs mac_checkout) (common_path [''repo'']) 3 \<and>
      shallow (fs mac_checkout) ([''repo''] @ [''Package'', ''Environment'', ''MacOS'']) 3"
    using sh by simp
  have sha: "build ?a = ''full'' \<longrightarrow> shallow (fs checkout) (common_path [''repo'']) 0 \<and>
      shallow (fs checkout) ([''repo''] @ [''Package'', ''Environment'', ''MacOS'']) 0"
    by simp
  have "map_option isl (copy_assets 3 [''repo''] ?f ?t0) = Some False" by code_simp
  then have nrf: "\<forall>e t. copy_assets 3 [''repo''] ?f ?t0 \<noteq> Some (Inl (e, t))" by auto
  have nra: "\<forall>e t. copy_assets 0 [''repo''] ?a ?s0 \<noteq> Some (Inl (e, t))"
    by (simp add: copy_assets_def)
  have full: "\<exists>s1. script 3 [''repo''] ?f mac_checkout =
       Some (Inr (py_print
         ''Error: Neither RetroFE.app nor retrofe binary found in Release folder.'' s1)) \<and>
       os_path_isdir (fs s1) [''repo'', ''Artifacts'', ''mac'', ''RetroFE'']"
    using mac_without_executable[OF w(3,4) wf_mac_checkout cf pf shf nrf, of "[]" mac_checkout]
    unfolding o by blast
  show ?thesis
    using w(2,4) wf_checkout wf_mac_checkout c cf sh full
      mac_without_executable[OF w(1,2) wf_checkout c p sha nra,
        of "[''repo'', ''Artifacts'', ''mac'', ''RetroFE'', ''retrofe'']" checkout]
    unfolding o by (simp add: strict_prefix_def)
qed

text \<open>
  C9. On windows and linux with profile \<^verbatim>\<open>full\<close>, \<^verbatim>\<open>core\<close> or
  \<^verbatim>\<open>engine\<close>, when the compiled executable is missing, the placement step
  raises in whatever state it is reached, and the run ends with an uncaught exception;
  in the profile \<^verbatim>\<open>full\<close> this is shown for every recursion bound that
  reaches the whole of the two asset trees.
\<close>

theorem missing_executable_raises:
  assumes "wants_executable a"
    and "os a = ''windows'' \<and> exe = src_exe_windows base \<or>
         os a = ''linux'' \<and> exe = src_exe_linux base"
    and "\<not> os_path_exists (fs s) exe"
    and "build a = ''full'' \<longrightarrow>
           shallow (fs s) (common_path base) n \<and>
           (\<exists>osp. os_path base a = Some osp \<and> shallow (fs s) osp n)"
  shows "(\<exists>e s'. script n base a s = Some (Inl (e, s'))) \<and>
    (\<not> os_path_exists (fs t) exe \<longrightarrow> (\<exists>e s'. place_executable n base a t = Some (Inl (e, s'))))"
proof -
  have exe: "exe = base @ ''RetroFE'' # tl (drop (length base) exe)"
    using assms(2) by (auto simp: src_exe_windows_def src_exe_linux_def)
  have pl: "\<exists>e s'. place_executable n base a t = Some (Inl (e, s'))"
    if "\<not> os_path_exists (fs t) exe" for t
    using assms(1,2) that place_windows_missing[of t base a] place_linux_missing[of t base a]
    by (auto simp: place_executable_def)
  have run: "\<exists>e s'. script n base a s = Some (Inl (e, s'))"
  proof (cases "prepare_output base a s")
    case (Inl x)
    then show ?thesis by (cases x) (simp add: script_prepare_failed)
  next
    case (Inr s0)
    have t0: "touches_only (output_path base a) (fs s) (fs s0)"
      using prepare_output_touches[of base a s] Inr by simp
    have same0: "stat (fs s0) (base @ x # xs) = stat (fs s) (base @ x # xs)"
      if "x \<noteq> ''Artifacts''" for x xs
      using stat_outside_output'[OF t0 that] .
    have "\<exists>r. copy_assets n base a s0 = Some r"
    proof (cases "build a = ''full''")
      case False
      then show ?thesis using assms(1) by (auto simp: copy_assets_def wants_executable_def)
    next
      case True
      with assms(4) obtain osp where sh: "shallow (fs s) (common_path base) n"
        and osp: "os_path base a = Some osp" and sho: "shallow (fs s) osp n" by blast
      from os_path_Some[OF osp] obtain d where
        ospd: "osp = base @ ''Package'' # [''Environment'', d]" by auto
      have cp: "common_path base = base @ ''Package'' # [''Environment'', ''Common'']"
        by (simp add: common_path_def)
      have "\<forall>rel. stat (fs s0) (common_path base @ rel) \<noteq> None \<longrightarrow> length rel < n"
        using shallow_bound[OF sh] same0[of "''Package''"] by (simp add: cp)
      moreover have "\<forall>rel. stat (fs s0) (osp' @ rel) \<noteq> None \<longrightarrow> length rel < n"
        if "os_path base a = Some osp'" for osp'
      proof (intro allI impI)
        fix rel assume a: "stat (fs s0) (osp' @ rel) \<noteq> None"
        have e: "osp' = osp" using that osp by simp
        have "stat (fs s0) (osp @ rel) = stat (fs s) (osp @ rel)"
          unfolding ospd using same0[of "''Package''" "[''Environment'', d] @ rel"] by simp
        with a e have "stat (fs s) (osp @ rel) \<noteq> None" by simp
        then show "length rel < n" by (rule shallow_bound[OF sho])
      qed
      moreover have "0 < n" using sh by (simp add: shallow_def)
      ultimately have "\<exists>r. build_full n base a s0 = Some r"
        by (intro build_full_returns) auto
      then show ?thesis using True by (simp add: copy_assets_def)
    qed
    then obtain r where r: "copy_assets n base a s0 = Some r" by blast
    show ?thesis
    proof (cases r)
      case (Inl x)
      then show ?thesis using r by (cases x) (simp add: script_prepared[OF Inr])
    next
      case s1: (Inr s1)
      have t1: "touches_only (output_path base a) (fs s0) (fs s1)"
        using copy_assets_touches[OF r] s1 by simp
      have "stat (fs s1) exe = stat (fs s) exe"
        using stat_outside_output'[OF t1, of "''RetroFE''"] same0[of "''RetroFE''"]
        by (subst (1 2) exe) simp
      then have "\<not> os_path_exists (fs s1) exe" using assms(3) by (simp add: exists_iff)
      from pl[OF this] show ?thesis using r s1 by (simp add: script_prepared[OF Inr])
    qed
  qed
  from run pl show ?thesis by blast
qed

theorem missing_executable_raises_witness:
  "wants_executable \<lparr>os = ''linux'', build = ''full'', clean = False\<rparr> \<and>
   \<not> os_path_exists (fs checkout) (src_exe_linux [''repo'']) \<and>
   shallow (fs checkout) (common_path [''repo'']) 4 \<and>
   shallow (fs checkout) [''repo'', ''Package'', ''Environment'', ''Linux''] 4 \<and>
   map_option isl (script 4 [''repo''] \<lparr>os = ''linux'', build = ''full'', clean = False\<rparr> checkout) =
     Some True \<and>
   map_option isl
     (place_executable 4 [''repo''] \<lparr>os = ''linux'', build = ''full'', clean = False\<rparr> checkout) =
     Some True"
proof -
  let ?a = "\<lparr>os = ''linux'', build = ''full'', clean = False\<rparr>"
  have w: "wants_executable ?a" by (simp add: wants_executable_def)
  have o: "os ?a = ''windows'' \<and> src_exe_linux [''repo''] = src_exe_windows [''repo''] \<or>
         os ?a = ''linux'' \<and> src_exe_linux [''repo''] = src_exe_linux [''repo'']" by simp
  have m: "\<not> os_path_exists (fs checkout) (src_exe_linux [''repo''])" by code_simp
  have s1: "shallow (fs checkout) (common_path [''repo'']) 4" by code_simp
  have s2: "shallow (fs checkout) [''repo'', ''Package'', ''Environment'', ''Linux''] 4"
    by code_simp
  have osp: "os_path [''repo''] ?a = Some [''repo'', ''Package'', ''Environment'', ''Linux'']"
    by (simp add: os_path_def)
  have d: "build ?a = ''full'' \<longrightarrow> shallow (fs checkout) (common_path [''repo'']) 4 \<and>
     (\<exists>osp. os_path [''repo''] ?a = Some osp \<and> shallow (fs checkout) osp 4)"
    using s1 s2 osp by simp
  show ?thesis
    using w m s1 s2 missing_executable_raises[OF w o m d, of checkout] by auto
qed

section \<open>The recursive copier\<close>

text \<open>
  C3, in the form that holds of the code. On a well-formed filesystem, when neither of the source and the
  destination path lies at or below the other and \<open>copytree\<close> returns, every
  regular file below the source (as it was before the call) is a regular file with the
  same bytes at the same relative path below the destination, and is unchanged below
  the source.
\<close>

theorem copytree_preserves_files:
  assumes "copytree n src dst s = Some (Inr s')" "wf_fs (fs s)"
    and "\<not> prefix src dst" "\<not> prefix dst src"
    and "stat (fs s) (src @ rel) = Some (File b)"
  shows "stat (fs s') (dst @ rel) = Some (File b) \<and> stat (fs s') (src @ rel) = Some (File b)"
proof
  show "stat (fs s') (dst @ rel) = Some (File b)"
    using assms by (rule copytree_files)
  have "touches_only dst (fs s) (fs s')" using copytree_touches[OF assms(1)] by simp
  from source_untouched[OF this assms(3,4)] assms(5)
  show "stat (fs s') (src @ rel) = Some (File b)" by simp
qed

theorem copytree_preserves_files_witness:
  "wf_fs (fs checkout) \<and>
   \<not> prefix (common_path [''repo'']) [''repo'', ''Artifacts'', ''mac'', ''RetroFE''] \<and>
   \<not> prefix [''repo'', ''Artifacts'', ''mac'', ''RetroFE''] (common_path [''repo'']) \<and>
   stat (fs checkout) (common_path [''repo''] @ [''collections'', ''mario'', ''roms'']) =
     Some (File ''list'') \<and>
   map_option isl
     (copytree 4 (common_path [''repo'']) [''repo'', ''Artifacts'', ''mac'', ''RetroFE''] checkout) =
     Some False \<and>
   map_option (\<lambda>r. stat (fs (state_of r))
        ([''repo'', ''Artifacts'', ''mac'', ''RetroFE''] @ [''collections'', ''mario'', ''roms'']))
     (copytree 4 (common_path [''repo'']) [''repo'', ''Artifacts'', ''mac'', ''RetroFE''] checkout) =
     Some (Some (File ''list''))"
proof -
  let ?src = "common_path [''repo'']"
  let ?dst = "[''repo'', ''Artifacts'', ''mac'', ''RetroFE'']"
  have i: "map_option isl (copytree 4 ?src ?dst checkout) = Some False" by code_simp
  then obtain s' where e: "copytree 4 ?src ?dst checkout = Some (Inr s')"
    using Some_Inr_state_of by blast
  have p: "\<not> prefix ?src ?dst" "\<not> prefix ?dst ?src" by (simp_all add: common_path_def)
  have f: "stat (fs checkout) (?src @ [''collections'', ''mario'', ''roms'']) = Some (File ''list'')"
    by code_simp
  from copytree_preserves_files[OF e wf_checkout p f] wf_checkout p f i e
  show ?thesis by simp
qed

text \<open>
  C3 as stated fails when the source lies below the destination. Copying
  \<^verbatim>\<open>/a/b\<close> onto \<^verbatim>\<open>/a\<close> returns normally, yet the file \<^verbatim>\<open>x\<close> of
  the source, holding \<^verbatim>\<open>old\<close> before the call, has the counterpart
  \<^verbatim>\<open>/a/x\<close> holding \<^verbatim>\<open>new\<close>, and the file \<^verbatim>\<open>y\<close> that the
  source holds after the call has no counterpart at all.
\<close>

theorem copytree_overlap_counterexample:
  "wf_fs (fs nested) \<and>
   map_option isl (copytree 3 [''a'', ''b''] [''a''] nested) = Some False \<and>
   stat (fs nested) ([''a'', ''b''] @ [''x'']) = Some (File ''old'') \<and>
   map_option (\<lambda>r. stat (fs (state_of r)) ([''a''] @ [''x'']))
     (copytree 3 [''a'', ''b''] [''a''] nested) = Some (Some (File ''new'')) \<and>
   map_option (\<lambda>r. stat (fs (state_of r)) ([''a'', ''b''] @ [''y'']))
     (copytree 3 [''a'', ''b''] [''a''] nested) = Some (Some (File ''y'')) \<and>
   map_option (\<lambda>r. stat (fs (state_of r)) ([''a''] @ [''y'']))
     (copytree 3 [''a'', ''b''] [''a''] nested) = Some None"
  by code_simp

text \<open>
  C8. Started on a well-formed filesystem, \<open>copytree\<close> passes only through
  filesystems in which every ancestor of every regular file is a directory: this holds
  of every filesystem recorded up to the return or the raise, and the recorded history
  continues the earlier one and ends with the filesystem the call leaves. This is not
  reached by refusing to copy: with a directory as source the copier never raises
  \<^verbatim>\<open>ENOENT\<close>, the error of a write into a missing directory, since it has made
  the directory first. When the copy returns (source and destination not lying one
  below the other), every regular file of the source tree is at its place below the
  destination and every ancestor of that place is a directory. And a copy of a source
  directory to a destination that has to be created, below a directory that allows
  it, returns without raising for every recursion bound that reaches the whole source
  tree.
\<close>

theorem copytree_parents_first:
  "(copytree n src dst s = Some r \<and> wf_fs (fs s) \<and> (\<forall>f \<in> set (hist s). wf_fs f) \<longrightarrow>
      recorded s (state_of r) \<and>
      (\<forall>f \<in> set (hist (state_of r)). \<forall>p c a.
         stat f p = Some (File c) \<and> strict_prefix a p \<longrightarrow> os_path_isdir f a)) \<and>
   (os_path_isdir (fs s) src \<longrightarrow> copytree n src dst s \<noteq> Some (Inl (OSError ENOENT, t))) \<and>
   (copytree n src dst s = Some (Inr s') \<and> wf_fs (fs s) \<and>
    \<not> prefix src dst \<and> \<not> prefix dst src \<and>
    stat (fs s) (src @ rel) = Some (File b) \<and> strict_prefix q (dst @ rel) \<longrightarrow>
      stat (fs s') (dst @ rel) = Some (File b) \<and> os_path_isdir (fs s') q) \<and>
   (wf_fs (fs s) \<and> os_path_isdir (fs s) src \<and> \<not> prefix src dst \<and> \<not> prefix dst src \<and>
    shallow (fs s) src n \<and>
    dst = q0 @ x # r0 \<and> stat (fs s) q0 = Some (Dir True) \<and> stat (fs s) (q0 @ [x]) = None \<longrightarrow>
      (\<exists>u. copytree n src dst s = Some (Inr u)))"
proof (intro conjI impI)
  assume h: "copytree n src dst s = Some r \<and> wf_fs (fs s) \<and> (\<forall>f \<in> set (hist s). wf_fs f)"
  then show "recorded s (state_of r)" by (auto intro: copytree_recorded)
  have "all_wf (state_of r)"
    using copytree_all_wf[of n src dst s r] h by (simp add: all_wf_def)
  then show "\<forall>f \<in> set (hist (state_of r)). \<forall>p c a.
       stat f p = Some (File c) \<and> strict_prefix a p \<longrightarrow> os_path_isdir f a"
    by (auto simp: all_wf_def intro: wf_fs_ancestors)
next
  assume "os_path_isdir (fs s) src"
  then show "copytree n src dst s \<noteq> Some (Inl (OSError ENOENT, t))"
    by (intro copytree_not_ENOENT) (auto simp: isdir_iff)
next
  assume h: "copytree n src dst s = Some (Inr s') \<and> wf_fs (fs s) \<and>
    \<not> prefix src dst \<and> \<not> prefix dst src \<and>
    stat (fs s) (src @ rel) = Some (File b) \<and> strict_prefix q (dst @ rel)"
  then show f: "stat (fs s') (dst @ rel) = Some (File b)" by (auto intro: copytree_files)
  have "wf_fs (fs s')" using copytree_wf_fs[of n src dst s "Inr s'"] h by simp
  from wf_fs_ancestors[OF this f] h show "os_path_isdir (fs s') q" by blast
next
  assume h: "wf_fs (fs s) \<and> os_path_isdir (fs s) src \<and> \<not> prefix src dst \<and> \<not> prefix dst src \<and>
    shallow (fs s) src n \<and>
    dst = q0 @ x # r0 \<and> stat (fs s) q0 = Some (Dir True) \<and> stat (fs s) (q0 @ [x]) = None"
  then have sh: "shallow (fs s) src n" by blast
  show "\<exists>u. copytree n src dst s = Some (Inr u)"
  proof (rule copytree_fresh[where q = q0 and x = x and r = r0])
    show "\<forall>rel. stat (fs s) (src @ rel) \<noteq> None \<longrightarrow> length rel < n"
      using shallow_bound[OF sh] by blast
  qed (use h in \<open>auto simp: isdir_iff\<close>)
qed

theorem copytree_parents_first_witness:
  "wf_fs (fs checkout) \<and> hist checkout = [] \<and>
   os_path_isdir (fs checkout) (common_path [''repo'']) \<and>
   shallow (fs checkout) (common_path [''repo'']) 4 \<and>
   stat (fs checkout) [''repo'', ''Artifacts''] = Some (Dir True) \<and>
   stat (fs checkout) [''repo'', ''Artifacts'', ''mac''] = None \<and>
   stat (fs checkout) (common_path [''repo''] @ [''settings.conf'']) =
     Some (File ''fullscreen=yes'') \<and>
   (\<exists>u. copytree 4 (common_path [''repo'']) [''repo'', ''Artifacts'', ''mac'', ''RetroFE''] checkout =
       Some (Inr u) \<and>
     recorded checkout u \<and>
     stat (fs u) [''repo'', ''Artifacts'', ''mac'', ''RetroFE'', ''settings.conf''] =
       Some (File ''fullscreen=yes'') \<and>
     os_path_isdir (fs u) [''repo'', ''Artifacts'', ''mac'', ''RetroFE''] \<and>
     os_path_isdir (last (hist u)) [''repo'', ''Artifacts'', ''mac'']) \<and>
   map_option (\<lambda>r. length (hist (state_of r)))
     (copytree 4 (common_path [''repo'']) [''repo'', ''Artifacts'', ''mac'', ''RetroFE''] checkout) =
     Some 9 \<and>
   map_option (\<lambda>r. stat (last (hist (state_of r)))
        [''repo'', ''Artifacts'', ''mac'', ''RetroFE'', ''settings.conf''])
     (copytree 4 (common_path [''repo'']) [''repo'', ''Artifacts'', ''mac'', ''RetroFE''] checkout) =
     Some (Some (File ''fullscreen=yes''))"
proof -
  let ?src = "common_path [''repo'']"
  let ?dst = "[''repo'', ''Artifacts'', ''mac'', ''RetroFE'']"
  let ?run = "copytree 4 ?src ?dst checkout"
  note T = copytree_parents_first[where n = 4 and src = ?src and dst = ?dst and s = checkout
      and ?q0.0 = "[''repo'', ''Artifacts'']" and x = "''mac''" and ?r0.0 = "[''RetroFE'']"
      and rel = "[''settings.conf'']" and b = "''fullscreen=yes''" and q = ?dst]
  have h0: "hist checkout = []" by (simp add: checkout_def)
  have d: "os_path_isdir (fs checkout) ?src" by code_simp
  have sh: "shallow (fs checkout) ?src 4" by code_simp
  have inc: "\<not> prefix ?src ?dst" "\<not> prefix ?dst ?src" by (simp_all add: common_path_def)
  have q: "stat (fs checkout) [''repo'', ''Artifacts''] = Some (Dir True)"
    "stat (fs checkout) ([''repo'', ''Artifacts''] @ [''mac'']) = None"
    "stat (fs checkout) (?src @ [''settings.conf'']) = Some (File ''fullscreen=yes'')"
    by code_simp+
  have l: "map_option (\<lambda>r. length (hist (state_of r))) ?run = Some 9" by code_simp
  have f: "map_option (\<lambda>r. stat (last (hist (state_of r))) (?dst @ [''settings.conf''])) ?run =
      Some (Some (File ''fullscreen=yes''))" by code_simp
  from T[where r = "Inr checkout" and t = checkout and s' = checkout] wf_checkout d sh inc q
  obtain u where e: "?run = Some (Inr u)" by auto
  from T[where r = "Inr u" and t = checkout and s' = u] e wf_checkout h0 inc q
  have r: "recorded checkout u"
    and a: "\<forall>f \<in> set (hist u). \<forall>p c a.
       stat f p = Some (File c) \<and> strict_prefix a p \<longrightarrow> os_path_isdir f a"
    and c: "stat (fs u) (?dst @ [''settings.conf'']) = Some (File ''fullscreen=yes'')"
    and du: "os_path_isdir (fs u) ?dst" by simp_all
  from l e have ne: "hist u \<noteq> []" by auto
  have "last (hist u) \<in> set (hist u)" using ne by simp
  moreover have "stat (last (hist u)) (?dst @ [''settings.conf'']) = Some (File ''fullscreen=yes'')"
    using f e by simp
  moreover have "strict_prefix [''repo'', ''Artifacts'', ''mac''] (?dst @ [''settings.conf''])"
    by (simp add: strict_prefix_def)
  ultimately have dl: "os_path_isdir (last (hist u)) [''repo'', ''Artifacts'', ''mac'']"
    using a by blast
  from e r c du dl have "\<exists>u. ?run = Some (Inr u) \<and> recorded checkout u \<and>
     stat (fs u) (?dst @ [''settings.conf'']) = Some (File ''fullscreen=yes'') \<and>
     os_path_isdir (fs u) ?dst \<and> os_path_isdir (last (hist u)) [''repo'', ''Artifacts'', ''mac'']"
    by blast
  with wf_checkout h0 d sh q l f show ?thesis by simp
qed

section \<open>The collections of the full profile\<close>


text \<open>
  C4, in the form that holds of the code. The scaffolding step of the
  \<^verbatim>\<open>full\<close> profile: when it returns without raising, then for every
  immediate subdirectory of \<^verbatim>\<open>collections\<close> whose name does not start with
  \<^verbatim>\<open>_\<close> each of the five paths exists afterwards, and is a directory unless a
  regular file was at that path before (it is then left in place). Whether the step
  returns or raises, it changes nothing at or below a collection whose name starts with
  \<^verbatim>\<open>_\<close>. The step raises when a subdirectory of \<^verbatim>\<open>collections\<close>
  whose name does not start with \<^verbatim>\<open>_\<close> holds a regular file named
  \<^verbatim>\<open>medium_artwork\<close>.
\<close>

theorem collections_scaffolding:
  "(scaffold_collections output s = Inr s' \<and>
      os_path_isdir (fs s) (output @ [''collections''] @ [d]) \<and>
      \<not> startswith_underscore d \<and> sub \<in> set dirs_to_create \<longrightarrow>
        os_path_exists (fs s') (output @ [''collections'', d] @ sub) \<and>
        (\<not> os_path_isfile (fs s) (output @ [''collections'', d] @ sub) \<longrightarrow>
           os_path_isdir (fs s') (output @ [''collections'', d] @ sub))) \<and>
   (startswith_underscore d \<longrightarrow>
        stat (fs (state_of (scaffold_collections output s))) (output @ ''collections'' # d # r) =
        stat (fs s) (output @ ''collections'' # d # r)) \<and>
   (os_path_isdir (fs s) (output @ [''collections''] @ [d]) \<and>
      \<not> startswith_underscore d \<and>
      os_path_isfile (fs s) (output @ [''collections'', d, ''medium_artwork'']) \<longrightarrow>
        isl (scaffold_collections output s))"
proof -
  let ?G = "\<lambda>s s'. grows (fs s) (fs s')"
  have rf: "?G s s" for s :: state by (rule grows_refl)
  have tr: "?G a b \<Longrightarrow> ?G b c \<Longrightarrow> ?G a c" for a b c :: state by (rule grows_trans)
  have b1: "?G t (state_of (scaffold_collection output y t))" for y t
    by (rule scaffold_collection_grows)
  text \<open>A returning step has called \<open>mkdir_p\<close> on each of the five paths.\<close>
  have called: "\<exists>u u'. grows (fs s) (fs u) \<and>
      mkdir_p (output @ [''collections'', d] @ sub) u = Inr u' \<and> grows (fs u') (fs s')"
    if ret: "scaffold_collections output s = Inr s'"
      and dir: "os_path_isdir (fs s) (output @ [''collections''] @ [d])"
      and nu: "\<not> startswith_underscore d" and ms: "sub \<in> set dirs_to_create" for s' sub
  proof -
    from ret obtain names where
      names: "os_listdir (fs s) (output @ [''collections'']) = Inr names"
      and loop: "for_each (scaffold_collection output)
        (filter (\<lambda>d. os_path_isdir (fs s) (output @ [''collections''] @ [d])) names) s = Inr s'"
      by (auto simp: scaffold_collections_def split: sum.splits)
    let ?dirs = "filter (\<lambda>d. os_path_isdir (fs s) (output @ [''collections''] @ [d])) names"
    let ?p = "output @ [''collections'', d] @ sub"
    from dir have "stat (fs s) ((output @ [''collections'']) @ [d]) \<noteq> None"
      by (auto simp: isdir_iff)
    then have "d \<in> set names" using os_listdir_Inr(2)[OF names] by simp
    with dir have md: "d \<in> set ?dirs" by simp
    have "\<exists>t t'. ?G s t \<and> scaffold_collection output d t = Inr t' \<and> ?G t' s'"
      by (rule for_each_visits[where R = ?G and body = "scaffold_collection output",
            OF _ _ _ loop md]) (auto intro: rf tr b1)
    then obtain t t' where t: "grows (fs s) (fs t)" "scaffold_collection output d t = Inr t'"
      "grows (fs t') (fs s')" by blast
    from t(2) nu have inner: "for_each (\<lambda>subdir. mkdir_p (output @ [''collections'', d] @ subdir))
        dirs_to_create t = Inr t'" by (simp add: scaffold_collection_def)
    have "\<exists>u u'. ?G t u \<and> mkdir_p ?p u = Inr u' \<and> ?G u' t'"
      by (rule for_each_visits[where R = ?G
            and body = "\<lambda>subdir. mkdir_p (output @ [''collections'', d] @ subdir)",
            OF _ _ _ inner ms]) (auto intro: rf tr mkdir_p_grows)
    then obtain u u' where u: "grows (fs t) (fs u)" "mkdir_p ?p u = Inr u'" "grows (fs u') (fs t')"
      by blast
    have "grows (fs s) (fs u)" using t(1) u(1) by (rule grows_trans)
    moreover have "grows (fs u') (fs s')" using u(3) t(3) by (rule grows_trans)
    ultimately show ?thesis using u(2) by blast
  qed
  show ?thesis
  proof (intro conjI impI)
    assume h: "scaffold_collections output s = Inr s' \<and>
      os_path_isdir (fs s) (output @ [''collections''] @ [d]) \<and>
      \<not> startswith_underscore d \<and> sub \<in> set dirs_to_create"
    let ?p = "output @ [''collections'', d] @ sub"
    from h called[of s' sub] obtain u u' where g0: "grows (fs s) (fs u)"
      and m: "mkdir_p ?p u = Inr u'" and g1: "grows (fs u') (fs s')" by blast
    show "os_path_exists (fs s') ?p" by (rule scaffolded_path(1)[OF m g0 g1])
    assume "\<not> os_path_isfile (fs s) ?p"
    then show "os_path_isdir (fs s') ?p" by (rule scaffolded_path(2)[OF m g0 g1])
  next
    assume u: "startswith_underscore d"
    let ?q = "output @ ''collections'' # d # r"
    show "stat (fs (state_of (scaffold_collections output s))) ?q = stat (fs s) ?q"
    proof (cases "os_listdir (fs s) (output @ [''collections''])")
      case (Inl e)
      then show ?thesis by (simp add: scaffold_collections_def)
    next
      case (Inr names)
      let ?dirs = "filter (\<lambda>d. os_path_isdir (fs s) (output @ [''collections''] @ [d])) names"
      have "stat (fs (state_of (for_each (scaffold_collection output) ?dirs s))) ?q = stat (fs s) ?q"
        by (rule for_each_rel[where R = "\<lambda>s s'. stat (fs s') ?q = stat (fs s) ?q"])
           (simp_all add: scaffold_collection_skips[OF u])
      then show ?thesis using Inr by (simp add: scaffold_collections_def)
    qed
  next
    assume h: "os_path_isdir (fs s) (output @ [''collections''] @ [d]) \<and>
      \<not> startswith_underscore d \<and>
      os_path_isfile (fs s) (output @ [''collections'', d, ''medium_artwork''])"
    show "isl (scaffold_collections output s)"
    proof (rule ccontr)
      assume "\<not> isl (scaffold_collections output s)"
      then obtain s' where ret: "scaffold_collections output s = Inr s'"
        by (cases "scaffold_collections output s") auto
      have ms: "[''medium_artwork'', ''logo''] \<in> set dirs_to_create"
        by (simp add: dirs_to_create_def)
      let ?p = "output @ [''collections'', d] @ [''medium_artwork'', ''logo'']"
      from h called[OF ret _ _ ms] obtain u u' where g0: "grows (fs s) (fs u)"
        and m: "mkdir_p ?p u = Inr u'" by blast
      from h obtain b where "stat (fs s) (output @ [''collections'', d, ''medium_artwork'']) =
          Some (File b)" by (auto simp: isfile_iff)
      from grows_keeps[OF g0 this]
      have "stat (fs u) (butlast ?p) = Some (File b)" by (simp add: butlast_append)
      then have "isl (mkdir_p ?p u)" by (intro mkdir_p_parent_file) simp_all
      with m show False by simp
    qed
  qed
qed

theorem collections_scaffolding_witness:
  "os_path_isdir (fs staged) ([''out''] @ [''collections''] @ [''mario'']) \<and>
   [''medium_artwork'', ''logo''] \<in> set dirs_to_create \<and>
   [''roms''] \<in> set dirs_to_create \<and>
   startswith_underscore ''_hidden'' \<and>
   os_path_isfile (fs staged) [''out'', ''collections'', ''mario'', ''roms''] \<and>
   isl (scaffold_collections [''out''] staged) = False \<and>
   os_path_isdir (fs (state_of (scaffold_collections [''out''] staged)))
     [''out'', ''collections'', ''mario'', ''medium_artwork'', ''logo''] \<and>
   os_path_exists (fs (state_of (scaffold_collections [''out''] staged)))
     [''out'', ''collections'', ''mario'', ''roms''] \<and>
   stat (fs (state_of (scaffold_collections [''out''] staged)))
     [''out'', ''collections'', ''_hidden'', ''roms''] = None \<and>
   os_path_isdir (fs blocked) ([''out''] @ [''collections''] @ [''mario'']) \<and>
   os_path_isfile (fs blocked) [''out'', ''collections'', ''mario'', ''medium_artwork''] \<and>
   isl (scaffold_collections [''out''] blocked)"
proof -
  let ?r = "scaffold_collections [''out''] staged"
  have i: "\<not> isl ?r" by code_simp
  then have e: "?r = Inr (state_of ?r)" by (rule Inr_state_of)
  have d: "os_path_isdir (fs staged) ([''out''] @ [''collections''] @ [''mario''])"
    "os_path_isdir (fs blocked) ([''out''] @ [''collections''] @ [''mario''])" by code_simp+
  have m: "[''medium_artwork'', ''logo''] \<in> set dirs_to_create" "[''roms''] \<in> set dirs_to_create"
    by (simp_all add: dirs_to_create_def)
  have u: "startswith_underscore ''_hidden''" "\<not> startswith_underscore ''mario''"
    by (simp_all add: startswith_underscore_def)
  have f: "os_path_isfile (fs staged) [''out'', ''collections'', ''mario'', ''roms'']"
    "\<not> os_path_isfile (fs staged) [''out'', ''collections'', ''mario'', ''medium_artwork'', ''logo'']"
    "stat (fs staged) [''out'', ''collections'', ''_hidden'', ''roms''] = None"
    "os_path_isfile (fs blocked) [''out'', ''collections'', ''mario'', ''medium_artwork'']"
    by code_simp+
  show ?thesis
    using i e d m u f
      collections_scaffolding[of "[''out'']" staged "state_of ?r" "''mario''"
        "[''medium_artwork'', ''logo'']"]
      collections_scaffolding[of "[''out'']" staged "state_of ?r" "''mario''" "[''roms'']"]
      collections_scaffolding[of "[''out'']" staged "state_of ?r" "''_hidden''" "[]" "[''roms'']"]
      collections_scaffolding[of "[''out'']" blocked blocked "''mario''" "[]" "[]"]
    by simp
qed

text \<open>
  C4 as stated fails where a collection already holds a regular file named like one
  of the five: the \<^verbatim>\<open>full\<close> profile run on the checkout, whose collection
  \<^verbatim>\<open>mario\<close> holds a regular file \<^verbatim>\<open>roms\<close>, completes its asset
  step, and \<^verbatim>\<open>collections/mario/roms\<close> is afterwards still that file, not a
  directory.
\<close>

theorem scaffolding_regular_file_counterexample:
  "\<not> startswith_underscore ''mario'' \<and>
   map_option isl
     (build_full 4 [''repo''] \<lparr>os = ''linux'', build = ''full'', clean = False\<rparr> checkout) =
     Some False \<and>
   map_option (\<lambda>r. os_path_isdir (fs (state_of r))
        [''repo'', ''Artifacts'', ''linux'', ''RetroFE'', ''collections'', ''mario''])
     (build_full 4 [''repo''] \<lparr>os = ''linux'', build = ''full'', clean = False\<rparr> checkout) =
     Some True \<and>
   map_option (\<lambda>r. stat (fs (state_of r))
        [''repo'', ''Artifacts'', ''linux'', ''RetroFE'', ''collections'', ''mario'', ''roms''])
     (build_full 4 [''repo''] \<lparr>os = ''linux'', build = ''full'', clean = False\<rparr> checkout) =
     Some (Some (File ''list'')) \<and>
   map_option (\<lambda>r. os_path_isdir (fs (state_of r))
        [''repo'', ''Artifacts'', ''linux'', ''RetroFE'', ''collections'', ''mario'', ''roms''])
     (build_full 4 [''repo''] \<lparr>os = ''linux'', build = ''full'', clean = False\<rparr> checkout) =
     Some False"
  by code_simp


end
